theory Spec2Isabelle
  imports Complex_Main "HOL-Library.AList"
begin

section \<open>Data model of the live-event engagement engine\<close>

text \<open>
  The documents are those of the Mongoose schemas at the end of
  \<^verbatim>\<open>src/server/socket/socketHandler.js\<close> (the LiveEvent model file), the
  operations are the request handlers of \<^verbatim>\<open>src/unnamed/part_000\<close> (the
  live-engagement routes) and the socket handlers of \<^verbatim>\<open>socketHandler.js\<close>.

  Conventions of the embedding:
  \<^item> an ObjectId (of a document, a sub-document or a user) is a natural number; the id
    of a document that a handler creates and the value of \<^verbatim>\<open>new Date()\<close> are
    inputs of the handler;
  \<^item> a JavaScript Number holding a counter is an \<open>int\<close> (the handlers use
    \<^verbatim>\<open>++\<close> and \<^verbatim>\<open>--\<close> with no lower bound); counters stay far below
    \<open>2^53\<close>, where doubles are exact. The one computation that leaves the integers,
    the percentage of a poll result, is modelled in binary64;
  \<^item> a string is a list of 8-bit characters: the texts of a request are taken from
    the Latin-1 range, where a character is one UTF-16 code unit and \<^verbatim>\<open>.length\<close>
    is the length of the list;
  \<^item> a handler returns its HTTP answer, the store after it, and the list of room
    broadcasts it emitted, in order. A handler that answers with an error before its
    \<^verbatim>\<open>save()\<close> leaves the store as it was: the modified document was only in
    memory;
  \<^item> calls to the store succeed (no connection failure), \<^verbatim>\<open>req.app.get('io')\<close>
    is set, and \<^verbatim>\<open>populate\<close>, which only replaces a user id by the user's
    public profile in an answer, is left out: answers carry the user id;
  \<^item> the handlers run one at a time: the interleaving of two requests at an
    \<^verbatim>\<open>await\<close> is not modelled.
\<close>

type_synonym oid = nat
type_synonym date = int

datatype le_status = scheduled | live | ended

record live_settings =
  enableChat :: bool
  enablePolls :: bool
  enableQA :: bool
  enablePhotoSharing :: bool
  moderationRequired :: bool

record metrics_t =
  activeUsers :: int
  totalInteractions :: int
  peakAttendance :: int
  averageEngagementTime :: int

record live_event =
  le_id :: oid
  le_eventId :: oid
  le_status :: le_status
  liveSettings :: live_settings
  metrics :: metrics_t
  startedAt :: "date option"
  endedAt :: "date option"

record ib_response =
  r_id :: oid
  r_userId :: oid
  r_response :: string
  r_timestamp :: date

record icebreaker =
  ib_id :: oid
  ib_liveEventId :: oid
  ib_question :: string
  ib_isActive :: bool
  responses :: "ib_response list"
  responseCount :: int
  ib_createdAt :: date

record vote =
  v_userId :: "oid option"
  v_timestamp :: date

record poll_option =
  opt_text :: string
  votes :: "vote list"
  voteCount :: int

record poll =
  p_id :: oid
  p_liveEventId :: oid
  p_question :: string
  options :: "poll_option list"
  totalVotes :: int
  p_isActive :: bool
  allowMultiple :: bool
  expiresAt :: "date option"

datatype qa_status = qa_pending | qa_answered | qa_dismissed

record qa_answer =
  a_text :: string
  answeredBy :: oid
  answeredAt :: date

record live_qa =
  q_id :: oid
  q_liveEventId :: oid
  q_question :: string
  askedBy :: oid
  upvotes :: "oid list"
  upvoteCount :: int
  answer :: "qa_answer option"
  q_status :: qa_status
  q_createdAt :: date

datatype photo_status = ph_pending | ph_approved | ph_rejected

record live_photo =
  ph_id :: oid
  ph_liveEventId :: oid
  uploadedBy :: oid
  imageUrl :: string
  caption :: string
  ph_status :: photo_status
  likes :: "oid list"
  likeCount :: int
  tags :: "string list"
  ph_createdAt :: date

record live_chat =
  c_id :: oid
  c_liveEventId :: oid
  c_userId :: oid
  c_message :: string
  messageType :: string
  isVisible :: bool
  c_createdAt :: date

text \<open>
  The store: the six collections of the LiveEvent model file, the Event collection
  reduced to what the handlers ask of it (the pairs of an event's id and its organizer),
  and the state of socket.io: which socket is in which event room, and the
  \<^verbatim>\<open>socket.eventId\<close> property that \<^verbatim>\<open>join_event\<close> sets.
\<close>

record db =
  events :: "(oid \<times> oid) list"
  liveEvents :: "live_event list"
  icebreakers :: "icebreaker list"
  polls :: "poll list"
  questions :: "live_qa list"
  photos :: "live_photo list"
  chats :: "live_chat list"
  rooms :: "(oid \<times> oid) list"
  socket_eventId :: "(oid \<times> oid) list"

datatype http_error =
    Status400 string
  | Status403 string
  | Status404 string
  | Status500 string

datatype reply =
    LiveEventStarted oid le_status live_settings date
  | LiveEventEnded metrics_t
  | IcebreakerCreated oid string int
  | ResponseAdded ib_response
  | PollCreated oid string "poll_option list" int
  | VoteRecorded "(string \<times> int \<times> int) list"
  | QuestionSubmitted oid string oid int qa_status
  | UpvoteAnswer string int
  | QuestionAnswered qa_answer
  | PhotoShared string oid string string photo_status oid
  | LikeAnswer string int
  | MessageSent oid oid string date

text \<open>The payloads of the room broadcasts, one constructor per event name.\<close>

datatype emit =
    event_started oid oid date
  | event_ended oid date metrics_t
  | new_icebreaker oid string date
  | icebreaker_response oid oid oid string date int
  | new_poll oid string "(string \<times> int) list" bool "date option"
  | poll_vote oid "(string \<times> int \<times> int) list" int
  | new_qa_question oid string oid int qa_status date
  | qa_upvote oid int bool
  | emit_qa_answered oid qa_answer qa_status
  | new_photo oid string string oid int date
  | photo_like oid int bool
  | chat_message oid oid string string date
  | active_users_update int "int option"
  | emit_metrics_update int int int

type_synonym outcome = "(http_error + reply) \<times> db \<times> (oid \<times> emit) list"

definition reject :: "http_error \<Rightarrow> db \<Rightarrow> outcome" where
  "reject e s = (Inl e, s, [])"

subsection \<open>Store access\<close>

definition findById :: "('a \<Rightarrow> oid) \<Rightarrow> oid \<Rightarrow> 'a list \<Rightarrow> 'a option" where
  "findById key i xs = find (\<lambda>d. key d = i) xs"

text \<open>\<^verbatim>\<open>doc.save()\<close>: a document that is in the collection replaces its stored
  version, a new one is inserted.\<close>

definition save_doc :: "('a \<Rightarrow> oid) \<Rightarrow> 'a \<Rightarrow> 'a list \<Rightarrow> 'a list" where
  "save_doc key d xs =
     (if list_ex (\<lambda>x. key x = key d) xs
      then map (\<lambda>x. if key x = key d then d else x) xs
      else xs @ [d])"

definition findLiveEvent :: "db \<Rightarrow> oid \<Rightarrow> live_event option" where
  "findLiveEvent s eventId = find (\<lambda>le. le_eventId le = eventId) (liveEvents s)"

definition findLiveEventLive :: "db \<Rightarrow> oid \<Rightarrow> live_event option" where
  "findLiveEventLive s eventId =
     find (\<lambda>le. le_eventId le = eventId \<and> le_status le = live) (liveEvents s)"

definition isOrganizer :: "db \<Rightarrow> oid \<Rightarrow> oid \<Rightarrow> bool" where
  "isOrganizer s eventId user = List.member (events s) (eventId, user)"

subsection \<open>Strings of a request body\<close>

text \<open>The characters that \<^verbatim>\<open>trim()\<close> strips, among the 8-bit ones: space, tab, line
  feed, vertical tab, form feed, carriage return and the no-break space.\<close>

definition is_ws :: "char \<Rightarrow> bool" where
  "is_ws c = (c \<in> set [CHR '' '', CHR 0x09, CHR 0x0A, CHR 0x0B, CHR 0x0C, CHR 0x0D, CHR 0xA0])"

definition trim :: "string \<Rightarrow> string" where
  "trim s = rev (dropWhile is_ws (rev (dropWhile is_ws s)))"

text \<open>A body field \<open>x\<close> that must hold text: \<open>None\<close> where the handler answers
  400 (\<^verbatim>\<open>!x || x.trim().length === 0\<close>, for a field that is absent or an
  empty or blank string), otherwise \<^verbatim>\<open>x.trim()\<close>, which the handler goes on with.\<close>

definition required_text :: "string option \<Rightarrow> string option" where
  "required_text x =
     (case x of
        None \<Rightarrow> None
      | Some t \<Rightarrow> if t = [] \<or> length (trim t) = 0 then None else Some (trim t))"

section \<open>Polls\<close>

text \<open>
  The percentage of the vote handler is computed in JavaScript Numbers, IEEE 754
  binary64. A double that is not zero is a multiple of \<open>2 ^ (e - 52)\<close>, where
  \<open>2 ^ e \<le> \<bar>x\<bar> < 2 ^ (e + 1)\<close>, and an operation returns the double nearest to its
  exact result, a tie going to the one with an even significand. The exponent range of
  doubles is left out: the values here lie between \<open>2^-53\<close> and \<open>2^60\<close>. The
  counters themselves are integers below \<open>2^53\<close> and so are doubles.
\<close>

text \<open>Round to the nearest integer, a tie to the even one.\<close>

definition rne :: "rat \<Rightarrow> int" where
  "rne x =
     (let f = \<lfloor>x\<rfloor>; d = x - of_int f
      in if d < 1 / 2 then f else if 1 / 2 < d then f + 1 else if even f then f else f + 1)"

text \<open>The number of binary digits of a positive integer.\<close>

function bitlen :: "int \<Rightarrow> int" where
  "bitlen p = (if p \<le> 0 then 0 else 1 + bitlen (p div 2))"
  by auto
termination
  by (relation "measure nat") auto

declare bitlen.simps [simp del]

text \<open>The exponent \<open>e\<close> with \<open>2 ^ e \<le> \<bar>x\<bar> < 2 ^ (e + 1)\<close>, for \<open>x \<noteq> 0\<close>.\<close>

definition binade :: "rat \<Rightarrow> int" where
  "binade x =
     (let (p, q) = quotient_of \<bar>x\<bar>;
          n = bitlen p - bitlen q
      in if 2 powi n \<le> \<bar>x\<bar> then n else n - 1)"

text \<open>The double nearest to a rational.\<close>

definition binary64 :: "rat \<Rightarrow> rat" where
  "binary64 x =
     (if x = 0 then 0
      else (let ulp = 2 powi (binade x - 52) in of_int (rne (x / ulp)) * ulp))"

text \<open>\<^verbatim>\<open>Math.round\<close> gives the nearest integer, the upper one of two that are equally
  near.\<close>

definition Math_round :: "rat \<Rightarrow> int" where
  "Math_round x = \<lfloor>x + 1 / 2\<rfloor>"

text \<open>\<^verbatim>\<open>poll.totalVotes > 0 ? Math.round((option.voteCount / poll.totalVotes) * 100) : 0\<close>\<close>

definition percentage :: "int \<Rightarrow> int \<Rightarrow> int" where
  "percentage optionVotes totalv =
     (if totalv > 0
      then Math_round (binary64 (binary64 (of_int optionVotes / of_int totalv) * 100))
      else 0)"

definition pollResults :: "poll \<Rightarrow> (string \<times> int \<times> int) list" where
  "pollResults p =
     map (\<lambda>option. (opt_text option, voteCount option,
                     percentage (voteCount option) (totalVotes p))) (options p)"

definition hasVoted :: "poll \<Rightarrow> oid \<Rightarrow> bool" where
  "hasVoted p user =
     list_ex (\<lambda>option. list_ex (\<lambda>vote. v_userId vote = Some user) (votes option)) (options p)"

definition push_vote :: "oid \<Rightarrow> date \<Rightarrow> poll_option \<Rightarrow> poll_option" where
  "push_vote user now option =
     option\<lparr>votes := votes option @ [\<lparr>v_userId = Some user, v_timestamp = now\<rparr>],
            voteCount := voteCount option + 1\<rparr>"

text \<open>The \<^verbatim>\<open>forEach\<close> of the vote handler; every index has passed the range check.\<close>

fun add_votes :: "oid \<Rightarrow> date \<Rightarrow> poll \<Rightarrow> int list \<Rightarrow> poll" where
  "add_votes user now p [] = p"
| "add_votes user now p (index # rest) =
     add_votes user now
       (p\<lparr>options := (options p)[nat index := push_vote user now (options p ! nat index)],
          totalVotes := totalVotes p + 1\<rparr>) rest"

text \<open>
  \<^verbatim>\<open>POST /:eventId/polls/:pollId/vote\<close>. \<open>optionIndexes\<close> is \<open>None\<close> when the
  body field is not an array; its elements are taken to be integers.
\<close>

definition vote_poll :: "db \<Rightarrow> oid \<Rightarrow> date \<Rightarrow> oid \<Rightarrow> oid \<Rightarrow> int list option \<Rightarrow> outcome" where
  "vote_poll s user now eventId pollId optionIndexes =
     (case optionIndexes of
        None \<Rightarrow> reject (Status400 ''optionIndexes array is required'') s
      | Some idxs \<Rightarrow>
          if idxs = [] then reject (Status400 ''optionIndexes array is required'') s
          else (case findById p_id pollId (polls s) of
             None \<Rightarrow> reject (Status404 ''Poll not found'') s
           | Some p \<Rightarrow>
               if \<not> p_isActive p \<or> (case expiresAt p of None \<Rightarrow> False | Some t \<Rightarrow> t < now)
               then reject (Status400 ''Poll is no longer active'') s
               else if hasVoted p user
               then reject (Status400 ''You have already voted in this poll'') s
               else if list_ex (\<lambda>index. index < 0 \<or> index > int (length (options p)) - 1) idxs
               then reject (Status400 ''Invalid option index'') s
               else
                 (let p' = add_votes user now p idxs
                  in (Inr (VoteRecorded (pollResults p')),
                      s\<lparr>polls := save_doc p_id p' (polls s)\<rparr>,
                      [(eventId, poll_vote pollId (pollResults p') (totalVotes p'))]))))"

text \<open>
  \<^verbatim>\<open>POST /:eventId/polls\<close>. The schema's validators run in \<^verbatim>\<open>poll.save()\<close>:
  a question or an option text that is empty or too long makes it throw, and the
  handler answers 500.
\<close>

definition create_poll ::
  "db \<Rightarrow> oid \<Rightarrow> date \<Rightarrow> oid \<Rightarrow> oid \<Rightarrow> string option \<Rightarrow> string list option \<Rightarrow> bool option
     \<Rightarrow> int option \<Rightarrow> outcome" where
  "create_poll s user now fresh eventId question opts allowMult expiresIn =
     (case (question, opts) of
        (Some q, Some texts) \<Rightarrow>
          if q = [] \<or> length texts < 2
          then reject (Status400 ''Question and at least 2 options are required'') s
          else (case findLiveEventLive s eventId of
             None \<Rightarrow> reject (Status404 ''Live event not found or not active'') s
           | Some liveEvent \<Rightarrow>
               (let pollOptions = map (\<lambda>t. \<lparr>opt_text = trim t, votes = [], voteCount = 0\<rparr>) texts;
                    p = \<lparr>p_id = fresh, p_liveEventId = le_id liveEvent, p_question = trim q,
                         options = pollOptions, totalVotes = 0, p_isActive = True,
                         allowMultiple = (case allowMult of None \<Rightarrow> False | Some b \<Rightarrow> b),
                         expiresAt = (case expiresIn of
                                        None \<Rightarrow> None
                                      | Some n \<Rightarrow> if n = 0 then None else Some (now + n * 1000))\<rparr>
                in if p_question p = [] \<or> length (p_question p) > 500
                      \<or> list_ex (\<lambda>option. opt_text option = [] \<or> length (opt_text option) > 200)
                           pollOptions
                   then reject (Status500 ''Failed to create poll'') s
                   else (Inr (PollCreated fresh (p_question p) (options p) 0),
                         s\<lparr>polls := polls s @ [p]\<rparr>,
                         [(eventId, new_poll fresh (p_question p)
                              (map (\<lambda>opt. (opt_text opt, 0)) (options p))
                              (allowMultiple p) (expiresAt p))])))
      | _ \<Rightarrow> reject (Status400 ''Question and at least 2 options are required'') s)"

section \<open>Live event lifecycle\<close>

record settings_patch =
  set_enableChat :: "bool option"
  set_enablePolls :: "bool option"
  set_enableQA :: "bool option"
  set_enablePhotoSharing :: "bool option"
  set_moderationRequired :: "bool option"

definition or_else :: "'a option \<Rightarrow> 'a \<Rightarrow> 'a" where
  "or_else x d = (case x of None \<Rightarrow> d | Some v \<Rightarrow> v)"

text \<open>\<^verbatim>\<open>{ ...liveEvent.liveSettings, ...liveSettings }\<close>\<close>

definition merge_settings :: "live_settings \<Rightarrow> settings_patch \<Rightarrow> live_settings" where
  "merge_settings old patch =
     \<lparr>enableChat = or_else (set_enableChat patch) (enableChat old),
      enablePolls = or_else (set_enablePolls patch) (enablePolls old),
      enableQA = or_else (set_enableQA patch) (enableQA old),
      enablePhotoSharing = or_else (set_enablePhotoSharing patch) (enablePhotoSharing old),
      moderationRequired = or_else (set_moderationRequired patch) (moderationRequired old)\<rparr>"

definition default_settings :: live_settings where
  "default_settings =
     \<lparr>enableChat = True, enablePolls = True, enableQA = True, enablePhotoSharing = True,
      moderationRequired = True\<rparr>"

text \<open>\<^verbatim>\<open>new LiveEvent({ eventId, liveSettings: liveSettings || {} })\<close> with the
  schema's defaults.\<close>

definition new_LiveEvent :: "oid \<Rightarrow> oid \<Rightarrow> settings_patch option \<Rightarrow> live_event" where
  "new_LiveEvent fresh eventId patch =
     \<lparr>le_id = fresh, le_eventId = eventId, le_status = scheduled,
      liveSettings = (case patch of None \<Rightarrow> default_settings
                      | Some p \<Rightarrow> merge_settings default_settings p),
      metrics = \<lparr>activeUsers = 0, totalInteractions = 0, peakAttendance = 0,
                 averageEngagementTime = 0\<rparr>,
      startedAt = None, endedAt = None\<rparr>"

text \<open>\<^verbatim>\<open>POST /:eventId/start\<close>\<close>

definition start_live ::
  "db \<Rightarrow> oid \<Rightarrow> date \<Rightarrow> oid \<Rightarrow> oid \<Rightarrow> settings_patch option \<Rightarrow> outcome" where
  "start_live s user now fresh eventId patch =
     (if \<not> isOrganizer s eventId user
      then reject (Status404 ''Event not found or access denied'') s
      else
        (let found = findLiveEvent s eventId
         in if (case found of None \<Rightarrow> False | Some le \<Rightarrow> le_status le = live)
            then reject (Status400 ''Event is already live'') s
            else
              (let created = (case found of None \<Rightarrow> new_LiveEvent fresh eventId patch
                              | Some le \<Rightarrow> le);
                   started = created\<lparr>le_status := live, startedAt := Some now\<rparr>;
                   liveEvent = (case patch of
                                  None \<Rightarrow> started
                                | Some p \<Rightarrow>
                                    started\<lparr>liveSettings := merge_settings (liveSettings started) p\<rparr>)
               in (Inr (LiveEventStarted (le_id liveEvent) (le_status liveEvent)
                          (liveSettings liveEvent) now),
                   s\<lparr>liveEvents := save_doc le_id liveEvent (liveEvents s)\<rparr>,
                   [(eventId, event_started eventId (le_id liveEvent) now)]))))"

text \<open>\<^verbatim>\<open>liveEventSchema.methods.updateMetrics\<close>: the document with its
  \<open>totalInteractions\<close> recomputed from the four collections.\<close>

definition updateMetrics :: "db \<Rightarrow> live_event \<Rightarrow> live_event" where
  "updateMetrics s this =
     (let chatMessages = int (length (filter (\<lambda>c. c_liveEventId c = le_id this) (chats s)));
          pollVotes = sum_list (map totalVotes
                        (filter (\<lambda>p. p_liveEventId p = le_id this) (polls s)));
          qaQuestions = int (length (filter (\<lambda>q. q_liveEventId q = le_id this) (questions s)));
          nphotos = int (length (filter (\<lambda>ph. ph_liveEventId ph = le_id this) (photos s)))
      in this\<lparr>metrics := (metrics this)\<lparr>totalInteractions :=
                               chatMessages + pollVotes + qaQuestions + nphotos\<rparr>\<rparr>)"

text \<open>\<^verbatim>\<open>POST /:eventId/end\<close>\<close>

definition end_live :: "db \<Rightarrow> oid \<Rightarrow> date \<Rightarrow> oid \<Rightarrow> outcome" where
  "end_live s user now eventId =
     (case findLiveEvent s eventId of
        None \<Rightarrow> reject (Status404 ''Live event not found'') s
      | Some le \<Rightarrow>
          if \<not> isOrganizer s eventId user then reject (Status403 ''Access denied'') s
          else
            (let liveEvent = updateMetrics s (le\<lparr>le_status := ended, endedAt := Some now\<rparr>)
             in (Inr (LiveEventEnded (metrics liveEvent)),
                 s\<lparr>liveEvents := save_doc le_id liveEvent (liveEvents s)\<rparr>,
                 [(eventId, event_ended eventId now (metrics liveEvent))])))"

section \<open>Icebreakers\<close>

text \<open>\<^verbatim>\<open>POST /:eventId/icebreakers\<close>\<close>

definition create_icebreaker ::
  "db \<Rightarrow> oid \<Rightarrow> date \<Rightarrow> oid \<Rightarrow> oid \<Rightarrow> string option \<Rightarrow> outcome" where
  "create_icebreaker s user now fresh eventId question =
     (case required_text question of
        None \<Rightarrow> reject (Status400 ''Question is required'') s
      | Some q \<Rightarrow>
          (case findLiveEventLive s eventId of
             None \<Rightarrow> reject (Status404 ''Live event not found or not active'') s
           | Some liveEvent \<Rightarrow>
               if length q > 500
               then reject (Status500 ''Failed to create icebreaker question'') s
               else
                 (let ib = \<lparr>ib_id = fresh, ib_liveEventId = le_id liveEvent, ib_question = q,
                            ib_isActive = True, responses = [], responseCount = 0,
                            ib_createdAt = now\<rparr>
                  in (Inr (IcebreakerCreated fresh q 0),
                      s\<lparr>icebreakers := icebreakers s @ [ib]\<rparr>,
                      [(eventId, new_icebreaker fresh q now)]))))"

text \<open>\<^verbatim>\<open>POST /:eventId/icebreakers/:icebreakerId/respond\<close>; \<open>fresh\<close> is the id
  of the new response sub-document.\<close>

definition respond_icebreaker ::
  "db \<Rightarrow> oid \<Rightarrow> date \<Rightarrow> oid \<Rightarrow> oid \<Rightarrow> oid \<Rightarrow> string option \<Rightarrow> outcome" where
  "respond_icebreaker s user now fresh eventId icebreakerId response =
     (case required_text response of
        None \<Rightarrow> reject (Status400 ''Response is required'') s
      | Some r \<Rightarrow>
          (case findById ib_id icebreakerId (icebreakers s) of
             None \<Rightarrow> reject (Status404 ''Icebreaker not found'') s
           | Some ib \<Rightarrow>
               (case find (\<lambda>x. r_userId x = user) (responses ib) of
                  Some existingResponse \<Rightarrow>
                    reject (Status400 ''You have already responded to this question'') s
                | None \<Rightarrow>
                    (let responseData = \<lparr>r_id = fresh, r_userId = user, r_response = r,
                                          r_timestamp = now\<rparr>;
                         ib' = ib\<lparr>responses := responses ib @ [responseData],
                                  responseCount := responseCount ib + 1\<rparr>
                     in if length r > 1000 then reject (Status500 ''Failed to add response'') s
                        else (Inr (ResponseAdded responseData),
                              s\<lparr>icebreakers := save_doc ib_id ib' (icebreakers s)\<rparr>,
                              [(eventId, icebreaker_response icebreakerId fresh user r now
                                           (responseCount ib'))])))))"

section \<open>Questions and answers\<close>

text \<open>\<^verbatim>\<open>POST /:eventId/qa/questions\<close>\<close>

definition ask_question ::
  "db \<Rightarrow> oid \<Rightarrow> date \<Rightarrow> oid \<Rightarrow> oid \<Rightarrow> string option \<Rightarrow> outcome" where
  "ask_question s user now fresh eventId question =
     (case required_text question of
        None \<Rightarrow> reject (Status400 ''Question is required'') s
      | Some q \<Rightarrow>
          (case findLiveEventLive s eventId of
             None \<Rightarrow> reject (Status404 ''Live event not found or not active'') s
           | Some liveEvent \<Rightarrow>
               if length q > 1000 then reject (Status500 ''Failed to submit question'') s
               else
                 (let qaQuestion = \<lparr>q_id = fresh, q_liveEventId = le_id liveEvent,
                                    q_question = q, askedBy = user, upvotes = [],
                                    upvoteCount = 0, answer = None, q_status = qa_pending,
                                    q_createdAt = now\<rparr>
                  in (Inr (QuestionSubmitted fresh q user 0 qa_pending),
                      s\<lparr>questions := questions s @ [qaQuestion]\<rparr>,
                      [(eventId, new_qa_question fresh q user 0 qa_pending now)]))))"

text \<open>The toggle of the upvote handler on the question document.
  \<^verbatim>\<open>question.upvotes.includes(req.user.id)\<close> is a call on a Mongoose array, which
  compares ObjectIds with the id string by value, as the \<^verbatim>\<open>filter\<close> of the
  handler does with \<^verbatim>\<open>id.toString() !== req.user.id\<close>.\<close>

definition toggle_upvote :: "oid \<Rightarrow> live_qa \<Rightarrow> live_qa" where
  "toggle_upvote user question =
     (if List.member (upvotes question) user
      then question\<lparr>upvotes := filter (\<lambda>id. id \<noteq> user) (upvotes question),
                    upvoteCount := upvoteCount question - 1\<rparr>
      else question\<lparr>upvotes := upvotes question @ [user],
                    upvoteCount := upvoteCount question + 1\<rparr>)"

text \<open>\<^verbatim>\<open>POST /:eventId/qa/questions/:questionId/upvote\<close>\<close>

definition upvote_question :: "db \<Rightarrow> oid \<Rightarrow> oid \<Rightarrow> oid \<Rightarrow> outcome" where
  "upvote_question s user eventId questionId =
     (case findById q_id questionId (questions s) of
        None \<Rightarrow> reject (Status404 ''Question not found'') s
      | Some question \<Rightarrow>
          (let hasUpvoted = List.member (upvotes question) user;
               question' = toggle_upvote user question
           in (Inr (UpvoteAnswer (if hasUpvoted then ''Upvote removed'' else ''Question upvoted'')
                      (upvoteCount question')),
               s\<lparr>questions := save_doc q_id question' (questions s)\<rparr>,
               [(eventId, qa_upvote questionId (upvoteCount question') (\<not> hasUpvoted))])))"

text \<open>\<^verbatim>\<open>POST /:eventId/qa/questions/:questionId/answer\<close>\<close>

definition answer_question ::
  "db \<Rightarrow> oid \<Rightarrow> date \<Rightarrow> oid \<Rightarrow> oid \<Rightarrow> string option \<Rightarrow> outcome" where
  "answer_question s user now eventId questionId answerText =
     (case required_text answerText of
        None \<Rightarrow> reject (Status400 ''Answer is required'') s
      | Some a \<Rightarrow>
          if \<not> isOrganizer s eventId user
          then reject (Status403 ''Only event organizers can answer questions'') s
          else (case findById q_id questionId (questions s) of
             None \<Rightarrow> reject (Status404 ''Question not found'') s
           | Some question \<Rightarrow>
               (let given = \<lparr>a_text = a, answeredBy = user, answeredAt = now\<rparr>;
                    question' = question\<lparr>answer := Some given, q_status := qa_answered\<rparr>
                in (Inr (QuestionAnswered given),
                    s\<lparr>questions := save_doc q_id question' (questions s)\<rparr>,
                    [(eventId, emit_qa_answered questionId given qa_answered)]))))"

section \<open>Photos\<close>

text \<open>\<^verbatim>\<open>POST /:eventId/photos\<close>\<close>

definition share_photo ::
  "db \<Rightarrow> oid \<Rightarrow> date \<Rightarrow> oid \<Rightarrow> oid \<Rightarrow> string option \<Rightarrow> string option \<Rightarrow> string list option
     \<Rightarrow> outcome" where
  "share_photo s user now fresh eventId url cap tgs =
     (case url of
        None \<Rightarrow> reject (Status400 ''Image URL is required'') s
      | Some u \<Rightarrow>
          if u = [] then reject (Status400 ''Image URL is required'') s
          else (case findLiveEventLive s eventId of
             None \<Rightarrow> reject (Status404 ''Live event not found or not active'') s
           | Some liveEvent \<Rightarrow>
               (let status = (if moderationRequired (liveSettings liveEvent)
                              then ph_pending else ph_approved);
                    photo = \<lparr>ph_id = fresh, ph_liveEventId = le_id liveEvent, uploadedBy = user,
                             imageUrl = u,
                             caption = (case cap of None \<Rightarrow> [] | Some c \<Rightarrow> trim c),
                             ph_status = status, likes = [], likeCount = 0,
                             tags = (case tgs of None \<Rightarrow> [] | Some ts \<Rightarrow> ts),
                             ph_createdAt = now\<rparr>
                in if length (caption photo) > 500
                   then reject (Status500 ''Failed to share photo'') s
                   else (Inr (PhotoShared
                                (if status = ph_pending then ''Photo submitted for moderation''
                                 else ''Photo shared successfully'')
                                fresh u (caption photo) status user),
                         s\<lparr>photos := photos s @ [photo]\<rparr>,
                         (if status = ph_approved
                          then [(eventId, new_photo fresh u (caption photo) user 0 now)]
                          else [])))))"

text \<open>The toggle of the like handler, written as the upvote's.\<close>

definition toggle_like :: "oid \<Rightarrow> live_photo \<Rightarrow> live_photo" where
  "toggle_like user photo =
     (if List.member (likes photo) user
      then photo\<lparr>likes := filter (\<lambda>id. id \<noteq> user) (likes photo),
                 likeCount := likeCount photo - 1\<rparr>
      else photo\<lparr>likes := likes photo @ [user], likeCount := likeCount photo + 1\<rparr>)"

text \<open>\<^verbatim>\<open>POST /:eventId/photos/:photoId/like\<close>\<close>

definition like_photo :: "db \<Rightarrow> oid \<Rightarrow> oid \<Rightarrow> oid \<Rightarrow> outcome" where
  "like_photo s user eventId photoId =
     (case findById ph_id photoId (photos s) of
        None \<Rightarrow> reject (Status404 ''Photo not found'') s
      | Some photo \<Rightarrow>
          (let hasLiked = List.member (likes photo) user;
               photo' = toggle_like user photo
           in (Inr (LikeAnswer (if hasLiked then ''Like removed'' else ''Photo liked'')
                      (likeCount photo')),
               s\<lparr>photos := save_doc ph_id photo' (photos s)\<rparr>,
               [(eventId, photo_like photoId (likeCount photo') (\<not> hasLiked))])))"

section \<open>Chat\<close>

text \<open>\<^verbatim>\<open>POST /:eventId/chat\<close>; \<open>mtype\<close> is the body's \<^verbatim>\<open>messageType\<close>,
  \<^verbatim>\<open>'text'\<close> when absent.\<close>

definition send_chat ::
  "db \<Rightarrow> oid \<Rightarrow> date \<Rightarrow> oid \<Rightarrow> oid \<Rightarrow> string option \<Rightarrow> string option \<Rightarrow> outcome" where
  "send_chat s user now fresh eventId message mtype =
     (case required_text message of
        None \<Rightarrow> reject (Status400 ''Message is required'') s
      | Some m \<Rightarrow>
          (case findLiveEventLive s eventId of
             None \<Rightarrow> reject (Status404 ''Live event not found or not active'') s
           | Some liveEvent \<Rightarrow>
               (let chatMessage = \<lparr>c_id = fresh, c_liveEventId = le_id liveEvent,
                                   c_userId = user, c_message = m,
                                   messageType = or_else mtype ''text'', isVisible = True,
                                   c_createdAt = now\<rparr>
                in if length m > 500
                      \<or> \<not> List.member [''text'', ''emoji'', ''system''] (messageType chatMessage)
                   then reject (Status500 ''Failed to send message'') s
                   else (Inr (MessageSent fresh user m now),
                         s\<lparr>chats := chats s @ [chatMessage]\<rparr>,
                         [(eventId, chat_message fresh user m (messageType chatMessage) now)]))))"

section \<open>Sockets and the metrics loop\<close>

text \<open>What a socket handler sends to the calling socket alone.\<close>

datatype direct = joined_event oid int | left_event oid | socket_error string

type_synonym socket_outcome = "direct list \<times> db \<times> (oid \<times> emit) list"

text \<open>\<^verbatim>\<open>getActiveUsersCount\<close>: the number of sockets in the event's room.\<close>

definition getActiveUsersCount :: "db \<Rightarrow> oid \<Rightarrow> int" where
  "getActiveUsersCount s eventId =
     int (length (filter (\<lambda>member. snd member = eventId) (rooms s)))"

text \<open>The \<^verbatim>\<open>join_event\<close> handler; \<open>eventId\<close> is \<open>None\<close> when the message has
  none.\<close>

definition join_event :: "db \<Rightarrow> oid \<Rightarrow> oid option \<Rightarrow> socket_outcome" where
  "join_event s socket eventId =
     (case eventId of
        None \<Rightarrow> ([socket_error ''Event ID is required''], s, [])
      | Some e \<Rightarrow>
          (let s1 = s\<lparr>rooms := List.insert (socket, e) (rooms s),
                      socket_eventId := AList.update socket e (socket_eventId s)\<rparr>
           in (case findLiveEvent s1 e of
                 None \<Rightarrow> ([joined_event e (getActiveUsersCount s1 e)], s1, [])
               | Some liveEvent \<Rightarrow>
                   if le_status liveEvent = live
                   then
                     (let n = getActiveUsersCount s1 e;
                          m = (metrics liveEvent)\<lparr>activeUsers := n\<rparr>;
                          m' = (if n > peakAttendance m then m\<lparr>peakAttendance := n\<rparr> else m);
                          s2 = s1\<lparr>liveEvents :=
                                    save_doc le_id (liveEvent\<lparr>metrics := m'\<rparr>) (liveEvents s1)\<rparr>
                      in ([joined_event e (getActiveUsersCount s2 e)], s2,
                          [(e, active_users_update n (Some (peakAttendance m')))]))
                   else ([joined_event e (getActiveUsersCount s1 e)], s1, []))))"

text \<open>The \<^verbatim>\<open>leave_event\<close> handler.\<close>

definition leave_event :: "db \<Rightarrow> oid \<Rightarrow> oid option \<Rightarrow> socket_outcome" where
  "leave_event s socket eventId =
     (case eventId of
        None \<Rightarrow> ([], s, [])
      | Some e \<Rightarrow>
          (let s1 = s\<lparr>rooms := removeAll (socket, e) (rooms s)\<rparr>;
               n = getActiveUsersCount s1 e
           in (case findLiveEvent s1 e of
                 None \<Rightarrow> ([left_event e], s1, [])
               | Some liveEvent \<Rightarrow>
                   if le_status liveEvent = live
                   then ([left_event e],
                         s1\<lparr>liveEvents :=
                              save_doc le_id
                                (liveEvent\<lparr>metrics := (metrics liveEvent)\<lparr>activeUsers := n\<rparr>\<rparr>)
                                (liveEvents s1)\<rparr>,
                         [(e, active_users_update n None)])
                   else ([left_event e], s1, []))))"

text \<open>The \<^verbatim>\<open>disconnect\<close> handler. socket.io has taken the socket out of all its
  rooms when it runs.\<close>

definition disconnect :: "db \<Rightarrow> oid \<Rightarrow> socket_outcome" where
  "disconnect s socket =
     (let s1 = s\<lparr>rooms := filter (\<lambda>member. fst member \<noteq> socket) (rooms s),
                 socket_eventId := AList.delete socket (socket_eventId s)\<rparr>
      in (case map_of (socket_eventId s) socket of
            None \<Rightarrow> ([], s1, [])
          | Some e \<Rightarrow>
              (let n = getActiveUsersCount s1 e
               in (case findLiveEvent s1 e of
                     None \<Rightarrow> ([], s1, [])
                   | Some liveEvent \<Rightarrow>
                       if le_status liveEvent = live
                       then ([],
                             s1\<lparr>liveEvents :=
                                  save_doc le_id
                                    (liveEvent\<lparr>metrics := (metrics liveEvent)\<lparr>activeUsers := n\<rparr>\<rparr>)
                                    (liveEvents s1)\<rparr>,
                             [(e, active_users_update n None)])
                       else ([], s1, [])))))"

text \<open>The \<^verbatim>\<open>track_engagement\<close> handler; \<open>has_action\<close> says that the message
  names an action.\<close>

definition track_engagement :: "db \<Rightarrow> oid \<Rightarrow> oid option \<Rightarrow> bool \<Rightarrow> socket_outcome" where
  "track_engagement s socket eventId has_action =
     (case eventId of
        None \<Rightarrow> ([], s, [])
      | Some e \<Rightarrow>
          if \<not> has_action then ([], s, [])
          else (case findLiveEvent s e of
             None \<Rightarrow> ([], s, [])
           | Some liveEvent \<Rightarrow>
               if le_status liveEvent = live
               then ([],
                     s\<lparr>liveEvents :=
                         save_doc le_id
                           (liveEvent\<lparr>metrics := (metrics liveEvent)
                              \<lparr>totalInteractions := totalInteractions (metrics liveEvent) + 1\<rparr>\<rparr>)
                           (liveEvents s)\<rparr>,
                     [])
               else ([], s, [])))"

text \<open>The body of the loop in the \<^verbatim>\<open>setInterval\<close> callback, for one of the live
  events that the \<^verbatim>\<open>find\<close> returned.\<close>

definition tick_one :: "db \<Rightarrow> live_event \<Rightarrow> db \<times> (oid \<times> emit) list" where
  "tick_one s liveEvent =
     (let n = getActiveUsersCount s (le_eventId liveEvent)
      in if n \<noteq> activeUsers (metrics liveEvent)
         then
           (let m = (metrics liveEvent)\<lparr>activeUsers := n\<rparr>;
                m' = (if n > peakAttendance m then m\<lparr>peakAttendance := n\<rparr> else m)
            in (s\<lparr>liveEvents := save_doc le_id (liveEvent\<lparr>metrics := m'\<rparr>) (liveEvents s)\<rparr>,
                [(le_eventId liveEvent,
                  emit_metrics_update (activeUsers m') (peakAttendance m')
                    (totalInteractions m'))]))
         else (s, []))"

fun tick_loop :: "db \<Rightarrow> live_event list \<Rightarrow> db \<times> (oid \<times> emit) list" where
  "tick_loop s [] = (s, [])"
| "tick_loop s (liveEvent # rest) =
     (let (s1, out1) = tick_one s liveEvent;
          (s2, out2) = tick_loop s1 rest
      in (s2, out1 @ out2))"

text \<open>One run of the \<^verbatim>\<open>setInterval\<close> callback.\<close>

definition tick :: "db \<Rightarrow> db \<times> (oid \<times> emit) list" where
  "tick s = tick_loop s (filter (\<lambda>le. le_status le = live) (liveEvents s))"

section \<open>Requests and runs\<close>

datatype http_request =
    Start oid date oid oid "settings_patch option"
  | End oid date oid
  | CreateIcebreaker oid date oid oid "string option"
  | Respond oid date oid oid oid "string option"
  | CreatePoll oid date oid oid "string option" "string list option" "bool option" "int option"
  | Vote oid date oid oid "int list option"
  | Ask oid date oid oid "string option"
  | Upvote oid oid oid
  | Answer oid date oid oid "string option"
  | SharePhoto oid date oid oid "string option" "string option" "string list option"
  | Like oid oid oid
  | Chat oid date oid oid "string option" "string option"

fun handle :: "db \<Rightarrow> http_request \<Rightarrow> outcome" where
  "handle s (Start user now fresh eventId patch) = start_live s user now fresh eventId patch"
| "handle s (End user now eventId) = end_live s user now eventId"
| "handle s (CreateIcebreaker user now fresh eventId question) =
     create_icebreaker s user now fresh eventId question"
| "handle s (Respond user now fresh eventId icebreakerId response) =
     respond_icebreaker s user now fresh eventId icebreakerId response"
| "handle s (CreatePoll user now fresh eventId question opts allowMult expiresIn) =
     create_poll s user now fresh eventId question opts allowMult expiresIn"
| "handle s (Vote user now eventId pollId optionIndexes) =
     vote_poll s user now eventId pollId optionIndexes"
| "handle s (Ask user now fresh eventId question) = ask_question s user now fresh eventId question"
| "handle s (Upvote user eventId questionId) = upvote_question s user eventId questionId"
| "handle s (Answer user now eventId questionId answerText) =
     answer_question s user now eventId questionId answerText"
| "handle s (SharePhoto user now fresh eventId url cap tgs) =
     share_photo s user now fresh eventId url cap tgs"
| "handle s (Like user eventId photoId) = like_photo s user eventId photoId"
| "handle s (Chat user now fresh eventId message mtype) =
     send_chat s user now fresh eventId message mtype"

datatype socket_message =
    JoinEvent "oid option"
  | LeaveEvent "oid option"
  | Disconnect
  | TrackEngagement "oid option" bool

fun handle_socket :: "db \<Rightarrow> oid \<Rightarrow> socket_message \<Rightarrow> socket_outcome" where
  "handle_socket s socket (JoinEvent eventId) = join_event s socket eventId"
| "handle_socket s socket (LeaveEvent eventId) = leave_event s socket eventId"
| "handle_socket s socket Disconnect = disconnect s socket"
| "handle_socket s socket (TrackEngagement eventId has_action) =
     track_engagement s socket eventId has_action"

datatype action = Http http_request | Socket oid socket_message | Tick

text \<open>One step of the server: the store after it and the room broadcasts.\<close>

fun step :: "db \<Rightarrow> action \<Rightarrow> db \<times> (oid \<times> emit) list" where
  "step s (Http r) = snd (handle s r)"
| "step s (Socket socket m) = snd (handle_socket s socket m)"
| "step s Tick = tick s"

fun run :: "db \<Rightarrow> action list \<Rightarrow> db" where
  "run s [] = s"
| "run s (a # rest) = run (fst (step s a)) rest"

section \<open>Properties of the documents, and the stores of the examples\<close>

text \<open>The counters of a poll agree: the options' \<open>voteCount\<close>s add up to
  \<open>totalVotes\<close>.\<close>

definition poll_ok :: "poll \<Rightarrow> bool" where
  "poll_ok p = (sum_list (map voteCount (options p)) = totalVotes p)"

text \<open>A question's \<open>upvotes\<close> hold no user twice and \<open>upvoteCount\<close> is their
  number.\<close>

definition qa_ok :: "live_qa \<Rightarrow> bool" where
  "qa_ok q = (distinct (upvotes q) \<and> upvoteCount q = int (length (upvotes q)))"

definition ib_ok :: "icebreaker \<Rightarrow> bool" where
  "ib_ok ib = (responseCount ib = int (length (responses ib)))"

text \<open>A store with one event, number 5, organised by user 1, and nothing else.\<close>

definition store0 :: db where
  "store0 = \<lparr>events = [(5, 1)], liveEvents = [], icebreakers = [], polls = [],
             questions = [], photos = [], chats = [], rooms = [], socket_eventId = []\<rparr>"

text \<open>The organiser starts the event and opens a poll with two options; users 2 and 3
  vote, user 2 tries again.\<close>

definition poll_session :: "action list" where
  "poll_session =
     [Http (Start 1 1000 10 5 None),
      Http (CreatePoll 1 1001 20 5 (Some ''Lunch?'') (Some [''A'', ''B'']) None None),
      Http (Vote 2 1002 5 20 (Some [0])),
      Http (Vote 3 1003 5 20 (Some [1])),
      Http (Vote 2 1004 5 20 (Some [1]))]"

text \<open>A store with one question that nobody has upvoted, and one with an icebreaker that
  user 2 has answered.\<close>

definition question0 :: live_qa where
  "question0 = \<lparr>q_id = 30, q_liveEventId = 10, q_question = ''Why?'', askedBy = 1, upvotes = [],
        upvoteCount = 0, answer = None, q_status = qa_pending, q_createdAt = 1000\<rparr>"

definition store_q :: db where
  "store_q = store0\<lparr>questions := [question0]\<rparr>"

definition qa_session :: "action list" where
  "qa_session = [Http (Upvote 2 5 30), Http (Upvote 2 5 30), Http (Upvote 3 5 30)]"

definition response0 :: ib_response where
  "response0 = \<lparr>r_id = 41, r_userId = 2, r_response = ''Tea'', r_timestamp = 1001\<rparr>"

definition icebreaker0 :: icebreaker where
  "icebreaker0 = \<lparr>ib_id = 40, ib_liveEventId = 10, ib_question = ''Tea or coffee?'',
       ib_isActive = True, responses = [response0], responseCount = 1, ib_createdAt = 1000\<rparr>"

definition store_ib :: db where
  "store_ib = store0\<lparr>icebreakers := [icebreaker0]\<rparr>"

definition ib_session :: "action list" where
  "ib_session = [Http (Respond 3 1002 42 5 40 (Some ''Coffee'')),
                 Http (Respond 3 1003 43 5 40 (Some ''Tea after all''))]"

text \<open>Stores with the live event of event 5 and a poll with two options that allows a
  single choice; the same with two sockets in the room; with a chat message; with the
  event ended; with the four feature toggles off.\<close>

definition live_event0 :: live_event where
  "live_event0 = \<lparr>le_id = 10, le_eventId = 5, le_status = live, liveSettings = default_settings,
      metrics = \<lparr>activeUsers = 0, totalInteractions = 0, peakAttendance = 0,
                 averageEngagementTime = 0\<rparr>,
      startedAt = Some 1000, endedAt = None\<rparr>"

definition poll0 :: poll where
  "poll0 = \<lparr>p_id = 20, p_liveEventId = 10, p_question = ''Lunch?'',
      options = [\<lparr>opt_text = ''A'', votes = [], voteCount = 0\<rparr>,
                 \<lparr>opt_text = ''B'', votes = [], voteCount = 0\<rparr>],
      totalVotes = 0, p_isActive = True, allowMultiple = False, expiresAt = None\<rparr>"

definition store_p :: db where
  "store_p = store0\<lparr>liveEvents := [live_event0], polls := [poll0]\<rparr>"

definition store_t :: db where
  "store_t = store_p\<lparr>rooms := [(101, 5), (102, 5)]\<rparr>"

definition chat0 :: live_chat where
  "chat0 = \<lparr>c_id = 60, c_liveEventId = 10, c_userId = 2, c_message = ''hi'',
             messageType = ''text'', isVisible = True, c_createdAt = 1001\<rparr>"

definition store_m :: db where
  "store_m = store0\<lparr>liveEvents := [live_event0], chats := [chat0]\<rparr>"

definition store_e :: db where
  "store_e = store0\<lparr>liveEvents := [live_event0\<lparr>le_status := ended, endedAt := Some 2000\<rparr>],
                     polls := [poll0]\<rparr>"

definition store_off :: db where
  "store_off =
     store_p\<lparr>liveEvents :=
       [live_event0\<lparr>liveSettings :=
          \<lparr>enableChat = False, enablePolls = False, enableQA = False,
           enablePhotoSharing = False, moderationRequired = True\<rparr>\<rparr>]\<rparr>"

text \<open>User 2 shares a photo in the started event, where moderation is required by
  default.\<close>

definition photo_session :: "action list" where
  "photo_session =
     [Http (Start 1 1000 10 5 None),
      Http (SharePhoto 2 1001 50 5 (Some ''http://x/p.png'') None None)]"

text \<open>Two sockets join the room before the organiser starts the event; then one
  leaves, and the metrics loop runs.\<close>

definition early_join_session :: "action list" where
  "early_join_session =
     [Socket 101 (JoinEvent (Some 5)), Socket 102 (JoinEvent (Some 5)),
      Http (Start 1 1000 10 5 None), Socket 101 (LeaveEvent (Some 5)), Tick]"

text \<open>What one run of the metrics loop does to a live event, stated apart from the loop:
  a member count that differs from the stored \<open>activeUsers\<close> is stored and raises
  \<open>peakAttendance\<close> to the maximum of the two, and a \<^verbatim>\<open>metrics_update\<close> goes to the
  room; \<open>totalInteractions\<close> is sent as stored.\<close>

definition reconcile :: "db \<Rightarrow> live_event \<Rightarrow> live_event" where
  "reconcile s le =
     (let n = getActiveUsersCount s (le_eventId le)
      in if n \<noteq> activeUsers (metrics le)
         then le\<lparr>metrics := (metrics le)\<lparr>activeUsers := n,
                    peakAttendance := max (peakAttendance (metrics le)) n\<rparr>\<rparr>
         else le)"

definition reconcile_notice :: "db \<Rightarrow> live_event \<Rightarrow> (oid \<times> emit) list" where
  "reconcile_notice s le =
     (let n = getActiveUsersCount s (le_eventId le)
      in if n \<noteq> activeUsers (metrics le)
         then [(le_eventId le,
                emit_metrics_update n (max (peakAttendance (metrics le)) n)
                  (totalInteractions (metrics le)))]
         else [])"

text \<open>The requests whose handler looks for the live event of \<open>eventId\<close> with
  \<^verbatim>\<open>status: 'live'\<close>.\<close>

fun looks_up_live_event :: "http_request \<Rightarrow> oid option" where
  "looks_up_live_event (CreateIcebreaker user now fresh eventId question) = Some eventId"
| "looks_up_live_event (CreatePoll user now fresh eventId question opts allowMult expiresIn) =
     Some eventId"
| "looks_up_live_event (Ask user now fresh eventId question) = Some eventId"
| "looks_up_live_event (SharePhoto user now fresh eventId url cap tgs) = Some eventId"
| "looks_up_live_event (Chat user now fresh eventId message mtype) = Some eventId"
| "looks_up_live_event _ = None"

text \<open>The requests whose handler loads a poll, a question, a photo or an icebreaker by
  its id and never loads the live event.\<close>

fun ignores_live_event :: "http_request \<Rightarrow> bool" where
  "ignores_live_event (Respond user now fresh eventId icebreakerId response) = True"
| "ignores_live_event (Vote user now eventId pollId optionIndexes) = True"
| "ignores_live_event (Upvote user eventId questionId) = True"
| "ignores_live_event (Like user eventId photoId) = True"
| "ignores_live_event _ = False"

text \<open>No LiveEvent of the event is live.\<close>

definition none_live :: "db \<Rightarrow> oid \<Rightarrow> bool" where
  "none_live s eventId =
     list_all (\<lambda>le. le_eventId le \<noteq> eventId \<or> le_status le \<noteq> live) (liveEvents s)"

text \<open>The store with the four feature toggles of every live event overwritten: two
  stores with the same masked store differ in those flags only.\<close>

definition mask_toggles :: "live_event \<Rightarrow> live_event" where
  "mask_toggles le =
     le\<lparr>liveSettings := (liveSettings le)\<lparr>enableChat := True, enablePolls := True,
                            enableQA := True, enablePhotoSharing := True\<rparr>\<rparr>"

definition mask_store :: "db \<Rightarrow> db" where
  "mask_store s = s\<lparr>liveEvents := map mask_toggles (liveEvents s)\<rparr>"

text \<open>The interaction operations: every request but start and end.\<close>

fun interaction :: "http_request \<Rightarrow> bool" where
  "interaction (Start user now fresh eventId patch) = False"
| "interaction (End user now eventId) = False"
| "interaction _ = True"

text \<open>The counters of a poll are sound: they agree and no \<open>voteCount\<close> is negative.\<close>

definition poll_sound :: "poll \<Rightarrow> bool" where
  "poll_sound p = (poll_ok p \<and> list_all (\<lambda>option. 0 \<le> voteCount option) (options p))"

text \<open>A poll in which 199 votes are counted, 28 of them for the first option.\<close>

definition store_v :: db where
  "store_v =
     store_p\<lparr>polls :=
       [poll0\<lparr>options := [\<lparr>opt_text = ''A'', votes = [], voteCount = 28\<rparr>,
                            \<lparr>opt_text = ''B'', votes = [], voteCount = 171\<rparr>],
               totalVotes := 199\<rparr>]\<rparr>"

text \<open>The id that a start request brings for a new LiveEvent is not in use.\<close>

fun fresh_id :: "db \<Rightarrow> action \<Rightarrow> bool" where
  "fresh_id s (Http (Start user now fresh eventId patch)) =
     (\<not> list_ex (\<lambda>le. le_id le = fresh) (liveEvents s))"
| "fresh_id s _ = True"

text \<open>Every live event of the first list has a document with its id in the second whose
  \<open>peakAttendance\<close> is not lower.\<close>

definition peak_kept :: "live_event list \<Rightarrow> live_event list \<Rightarrow> bool" where
  "peak_kept before after =
     list_all (\<lambda>le. list_ex (\<lambda>le'. le_id le' = le_id le
                        \<and> peakAttendance (metrics le) \<le> peakAttendance (metrics le')) after)
       before"

section \<open>Shared lemmas\<close>

lemma save_doc_all: "list_all P xs \<Longrightarrow> P d \<Longrightarrow> list_all P (save_doc key d xs)"
  by (auto simp: save_doc_def list_all_iff)

lemma findById_all: "list_all P xs \<Longrightarrow> findById key i xs = Some d \<Longrightarrow> P d"
  by (auto simp: findById_def list_all_iff find_Some_iff)

lemma findById_key: "findById key i xs = Some d \<Longrightarrow> key d = i"
  by (auto simp: findById_def find_Some_iff)

lemma find_map_replace:
  "find (\<lambda>x. key x = i) xs = Some y \<Longrightarrow> key d = i \<Longrightarrow>
   find (\<lambda>x. key x = i) (map (\<lambda>x. if key x = i then d else x) xs) = Some d"
  by (induction xs) (auto split: if_splits)

lemma findById_save_doc:
  "findById key i xs = Some y \<Longrightarrow> key d = i \<Longrightarrow> findById key i (save_doc key d xs) = Some d"
proof -
  assume f: "findById key i xs = Some y" and k: "key d = i"
  then have "list_ex (\<lambda>x. key x = key d) xs"
    by (auto simp: findById_def find_Some_iff list_ex_iff)
  with f k show ?thesis
    using find_map_replace[of key i xs y d] by (simp add: findById_def save_doc_def)
qed

subsection \<open>What each handler leaves alone\<close>

lemma start_live_keeps:
  "polls (fst (snd (start_live s u n f e p))) = polls s"
  "questions (fst (snd (start_live s u n f e p))) = questions s"
  "icebreakers (fst (snd (start_live s u n f e p))) = icebreakers s"
  by (auto simp: start_live_def reject_def Let_def split: option.splits)

lemma end_live_keeps:
  "polls (fst (snd (end_live s u n e))) = polls s"
  "questions (fst (snd (end_live s u n e))) = questions s"
  "icebreakers (fst (snd (end_live s u n e))) = icebreakers s"
  by (auto simp: end_live_def reject_def Let_def split: option.splits)

lemma create_icebreaker_keeps:
  "polls (fst (snd (create_icebreaker s u n f e q))) = polls s"
  "questions (fst (snd (create_icebreaker s u n f e q))) = questions s"
  by (auto simp: create_icebreaker_def reject_def Let_def split: option.splits)

lemma respond_icebreaker_keeps:
  "polls (fst (snd (respond_icebreaker s u n f e i r))) = polls s"
  "questions (fst (snd (respond_icebreaker s u n f e i r))) = questions s"
  by (auto simp: respond_icebreaker_def reject_def Let_def split: option.splits)

lemma create_poll_keeps:
  "questions (fst (snd (create_poll s u n f e q os am ex))) = questions s"
  "icebreakers (fst (snd (create_poll s u n f e q os am ex))) = icebreakers s"
  by (auto simp: create_poll_def reject_def Let_def split: option.splits)

lemma vote_poll_keeps:
  "questions (fst (snd (vote_poll s u n e i ix))) = questions s"
  "icebreakers (fst (snd (vote_poll s u n e i ix))) = icebreakers s"
  by (auto simp: vote_poll_def reject_def Let_def split: option.splits)

lemma ask_question_keeps:
  "polls (fst (snd (ask_question s u n f e q))) = polls s"
  "icebreakers (fst (snd (ask_question s u n f e q))) = icebreakers s"
  by (auto simp: ask_question_def reject_def Let_def split: option.splits)

lemma upvote_question_keeps:
  "polls (fst (snd (upvote_question s u e i))) = polls s"
  "icebreakers (fst (snd (upvote_question s u e i))) = icebreakers s"
  by (auto simp: upvote_question_def reject_def Let_def split: option.splits)

lemma answer_question_keeps:
  "polls (fst (snd (answer_question s u n e i a))) = polls s"
  "icebreakers (fst (snd (answer_question s u n e i a))) = icebreakers s"
  by (auto simp: answer_question_def reject_def Let_def split: option.splits)

lemma share_photo_keeps:
  "polls (fst (snd (share_photo s u n f e url c t))) = polls s"
  "questions (fst (snd (share_photo s u n f e url c t))) = questions s"
  "icebreakers (fst (snd (share_photo s u n f e url c t))) = icebreakers s"
  by (auto simp: share_photo_def reject_def Let_def split: option.splits)

lemma like_photo_keeps:
  "polls (fst (snd (like_photo s u e i))) = polls s"
  "questions (fst (snd (like_photo s u e i))) = questions s"
  "icebreakers (fst (snd (like_photo s u e i))) = icebreakers s"
  by (auto simp: like_photo_def reject_def Let_def split: option.splits)

lemma send_chat_keeps:
  "polls (fst (snd (send_chat s u n f e m t))) = polls s"
  "questions (fst (snd (send_chat s u n f e m t))) = questions s"
  "icebreakers (fst (snd (send_chat s u n f e m t))) = icebreakers s"
  by (auto simp: send_chat_def reject_def Let_def split: option.splits)

lemma handle_socket_keeps:
  "polls (fst (snd (handle_socket s k m))) = polls s"
  "questions (fst (snd (handle_socket s k m))) = questions s"
  "icebreakers (fst (snd (handle_socket s k m))) = icebreakers s"
  by (cases m; auto simp: join_event_def leave_event_def disconnect_def track_engagement_def
        Let_def split: option.splits)+

lemma tick_one_keeps:
  "polls (fst (tick_one s le)) = polls s"
  "questions (fst (tick_one s le)) = questions s"
  "icebreakers (fst (tick_one s le)) = icebreakers s"
  by (auto simp: tick_one_def Let_def)

lemma tick_loop_keeps:
  "polls (fst (tick_loop s les)) = polls s \<and> questions (fst (tick_loop s les)) = questions s
   \<and> icebreakers (fst (tick_loop s les)) = icebreakers s"
  by (induction les arbitrary: s) (auto simp: split_beta tick_one_keeps)

lemma tick_keeps:
  "polls (fst (tick s)) = polls s"
  "questions (fst (tick s)) = questions s"
  "icebreakers (fst (tick s)) = icebreakers s"
  by (simp_all add: tick_def tick_loop_keeps)

lemmas keeps = start_live_keeps end_live_keeps create_icebreaker_keeps respond_icebreaker_keeps
  create_poll_keeps vote_poll_keeps ask_question_keeps upvote_question_keeps
  answer_question_keeps share_photo_keeps like_photo_keeps send_chat_keeps
  handle_socket_keeps tick_keeps

section \<open>Poll counters\<close>

lemma sum_list_bump: "i < length xs \<Longrightarrow> sum_list (xs[i := xs ! i + c]) = sum_list xs + (c::int)"
  by (induction xs arbitrary: i) (auto split: nat.splits)

lemma sum_voteCount_update:
  "i < length os \<Longrightarrow>
   sum_list (map voteCount (os[i := push_vote u now (os ! i)])) = sum_list (map voteCount os) + 1"
  using sum_list_bump[of i "map voteCount os" 1] by (simp add: map_update push_vote_def)

lemma add_votes_sum:
  "list_all (\<lambda>i. 0 \<le> i \<and> i < int (length (options p))) idxs \<Longrightarrow>
   sum_list (map voteCount (options (add_votes u now p idxs))) - totalVotes (add_votes u now p idxs)
   = sum_list (map voteCount (options p)) - totalVotes p"
proof (induction idxs arbitrary: p)
  case Nil
  then show ?case by simp
next
  case (Cons i idxs)
  let ?p = "p\<lparr>options := (options p)[nat i := push_vote u now (options p ! nat i)],
          totalVotes := totalVotes p + 1\<rparr>"
  from Cons.prems have i: "nat i < length (options p)" by auto
  from Cons.prems have "list_all (\<lambda>i. 0 \<le> i \<and> i < int (length (options ?p))) idxs" by simp
  from Cons.IH[OF this] show ?case using sum_voteCount_update[OF i, of u now] by simp
qed

lemma add_votes_ok:
  "poll_ok p \<Longrightarrow> \<not> list_ex (\<lambda>index. index < 0 \<or> index > int (length (options p)) - 1) idxs \<Longrightarrow>
   poll_ok (add_votes u now p idxs)"
proof -
  assume ok: "poll_ok p" and r: "\<not> list_ex (\<lambda>index. index < 0 \<or> index > int (length (options p)) - 1) idxs"
  from r have "list_all (\<lambda>i. 0 \<le> i \<and> i < int (length (options p))) idxs"
    by (auto simp: list_all_iff list_ex_iff)
  from add_votes_sum[OF this, of u now] ok show ?thesis by (simp add: poll_ok_def)
qed

lemma vote_poll_ok:
  "list_all poll_ok (polls s) \<Longrightarrow>
   list_all poll_ok (polls (fst (snd (vote_poll s user now e pid idxs))))"
  by (auto simp: vote_poll_def reject_def Let_def
      intro!: save_doc_all add_votes_ok dest: findById_all split: option.splits)

lemma create_poll_ok:
  "list_all poll_ok (polls s) \<Longrightarrow>
   list_all poll_ok (polls (fst (snd (create_poll s user now fresh e q os am ex))))"
  by (auto simp: create_poll_def reject_def Let_def poll_ok_def comp_def
      split: option.splits)

lemma step_poll_ok:
  "list_all poll_ok (polls s) \<Longrightarrow> list_all poll_ok (polls (fst (step s a)))"
proof (cases a)
  case (Http r)
  assume "list_all poll_ok (polls s)"
  then show ?thesis using Http
    by (cases r) (simp_all add: keeps vote_poll_ok create_poll_ok)
next
  case (Socket k m)
  assume "list_all poll_ok (polls s)"
  then show ?thesis using Socket by (simp add: keeps)
next
  case Tick
  assume "list_all poll_ok (polls s)"
  then show ?thesis using Tick by (simp add: keeps)
qed

text \<open>
  C5. In every poll, the \<open>voteCount\<close>s of the options add up to \<open>totalVotes\<close>:
  this holds of a poll when it is created and every request, socket message and tick
  of the metrics loop keeps it, so it holds after any sequence of votes (accepted or
  rejected, mixed with any other operation).
\<close>

theorem votes_sum_to_total:
  "list_all poll_ok (polls s) \<Longrightarrow> list_all poll_ok (polls (run s acts))"
  by (induction acts arbitrary: s) (simp_all add: step_poll_ok)

theorem votes_sum_to_total_witness:
  "list_all poll_ok (polls store0) \<and> list_all poll_ok (polls (run store0 poll_session))"
  using votes_sum_to_total [of store0 poll_session] by (simp add: store0_def)

section \<open>Upvotes of a question\<close>

lemma length_filter_out:
  "distinct xs \<Longrightarrow> u \<in> set xs \<Longrightarrow> int (length (filter (\<lambda>x. x \<noteq> u) xs)) = int (length xs) - 1"
proof (induction xs)
  case Nil
  then show ?case by simp
next
  case (Cons x xs)
  show ?case
  proof (cases "x = u")
    case True
    with Cons.prems have "filter (\<lambda>x. x \<noteq> u) xs = xs" by (auto simp: filter_id_conv)
    with True show ?thesis by simp
  next
    case False
    with Cons show ?thesis by auto
  qed
qed

lemma toggle_upvote_ok: "qa_ok q \<Longrightarrow> qa_ok (toggle_upvote u q)"
  by (auto simp: qa_ok_def toggle_upvote_def length_filter_out)

lemma toggle_upvote_id [simp]: "q_id (toggle_upvote u q) = q_id q"
  by (simp add: toggle_upvote_def)

lemma toggle_upvote_twice:
  "set (upvotes (toggle_upvote u (toggle_upvote u q))) = set (upvotes q)"
  "upvoteCount (toggle_upvote u (toggle_upvote u q)) = upvoteCount q"
  by (auto simp: toggle_upvote_def)

lemma toggle_upvote_fresh:
  "u \<notin> set (upvotes q) \<Longrightarrow> upvotes (toggle_upvote u q) = upvotes q @ [u]"
  "u \<notin> set (upvotes q) \<Longrightarrow> upvoteCount (toggle_upvote u q) = upvoteCount q + 1"
  "u \<notin> set (upvotes q) \<Longrightarrow> toggle_upvote u (toggle_upvote u q) = q"
proof -
  assume n: "u \<notin> set (upvotes q)"
  then have "filter (\<lambda>id. id \<noteq> u) (upvotes q) = upvotes q"
    by (auto simp: filter_id_conv)
  with n show "toggle_upvote u (toggle_upvote u q) = q"
    by (simp add: toggle_upvote_def)
qed (simp_all add: toggle_upvote_def)

lemma upvote_question_found:
  "findById q_id qid (questions s) = Some q \<Longrightarrow>
   findById q_id qid (questions (fst (snd (upvote_question s u e qid)))) = Some (toggle_upvote u q)"
  by (simp add: upvote_question_def Let_def findById_save_doc findById_key)

lemma upvote_question_ok:
  "list_all qa_ok (questions s) \<Longrightarrow>
   list_all qa_ok (questions (fst (snd (upvote_question s u e qid))))"
  by (auto simp: upvote_question_def reject_def Let_def
      intro!: save_doc_all toggle_upvote_ok dest: findById_all split: option.splits)

lemma answer_question_ok:
  "list_all qa_ok (questions s) \<Longrightarrow>
   list_all qa_ok (questions (fst (snd (answer_question s u n e qid a))))"
proof -
  have keep: "\<And>q g. qa_ok q \<Longrightarrow> qa_ok (q\<lparr>answer := Some g, q_status := qa_answered\<rparr>)"
    by (simp add: qa_ok_def)
  assume "list_all qa_ok (questions s)"
  then show ?thesis
    by (auto simp: answer_question_def reject_def Let_def
        intro!: save_doc_all keep dest: findById_all split: option.splits)
qed

lemma ask_question_ok:
  "list_all qa_ok (questions s) \<Longrightarrow>
   list_all qa_ok (questions (fst (snd (ask_question s u n f e q))))"
  by (auto simp: ask_question_def reject_def Let_def qa_ok_def split: option.splits)

lemma step_qa_ok:
  "list_all qa_ok (questions s) \<Longrightarrow> list_all qa_ok (questions (fst (step s a)))"
proof (cases a)
  case (Http r)
  assume "list_all qa_ok (questions s)"
  then show ?thesis using Http
    by (cases r) (simp_all add: keeps upvote_question_ok answer_question_ok ask_question_ok)
next
  case (Socket k m)
  assume "list_all qa_ok (questions s)"
  then show ?thesis using Socket by (simp add: keeps)
next
  case Tick
  assume "list_all qa_ok (questions s)"
  then show ?thesis using Tick by (simp add: keeps)
qed

lemma run_qa_ok: "list_all qa_ok (questions s) \<Longrightarrow> list_all qa_ok (questions (run s acts))"
  by (induction acts arbitrary: s) (simp_all add: step_qa_ok)

text \<open>
  C4. \<open>upvoteCount\<close> is the length of \<open>upvotes\<close> for every question after every
  operation: a question is created with both empty, and every request, socket message
  and tick keeps the invariant \<open>qa_ok\<close> (which also says that no user is in
  \<open>upvotes\<close> twice). Two upvotes in a row by one user bring the set of upvoters and
  the count back to what they were, from any state of the question; one upvote by a
  user who is not among the upvoters adds that user at the end and raises the count by
  one, and the second upvote then gives back the very same document.
\<close>

theorem upvote_is_toggle:
  "(list_all qa_ok (questions s) \<longrightarrow>
      list_all (\<lambda>q. upvoteCount q = int (length (upvotes q))) (questions (run s acts)))
   \<and> (findById q_id qid (questions s) = Some q \<longrightarrow>
        (\<exists>q1 q2.
           findById q_id qid (questions (fst (snd (upvote_question s user e qid)))) = Some q1
         \<and> findById q_id qid
              (questions (fst (snd (upvote_question (fst (snd (upvote_question s user e qid)))
                                      user e qid)))) = Some q2
         \<and> set (upvotes q2) = set (upvotes q) \<and> upvoteCount q2 = upvoteCount q
         \<and> (user \<notin> set (upvotes q) \<longrightarrow>
               upvotes q1 = upvotes q @ [user] \<and> upvoteCount q1 = upvoteCount q + 1 \<and> q2 = q)))"
proof (intro conjI impI)
  assume "list_all qa_ok (questions s)"
  then have "list_all qa_ok (questions (run s acts))" by (rule run_qa_ok)
  then show "list_all (\<lambda>q. upvoteCount q = int (length (upvotes q))) (questions (run s acts))"
    by (simp add: list_all_iff qa_ok_def)
next
  assume f: "findById q_id qid (questions s) = Some q"
  let ?s1 = "fst (snd (upvote_question s user e qid))"
  have f1: "findById q_id qid (questions ?s1) = Some (toggle_upvote user q)"
    using f by (rule upvote_question_found)
  have f2: "findById q_id qid (questions (fst (snd (upvote_question ?s1 user e qid))))
            = Some (toggle_upvote user (toggle_upvote user q))"
    using f1 by (rule upvote_question_found)
  show "\<exists>q1 q2.
           findById q_id qid (questions ?s1) = Some q1
         \<and> findById q_id qid (questions (fst (snd (upvote_question ?s1 user e qid)))) = Some q2
         \<and> set (upvotes q2) = set (upvotes q) \<and> upvoteCount q2 = upvoteCount q
         \<and> (user \<notin> set (upvotes q) \<longrightarrow>
               upvotes q1 = upvotes q @ [user] \<and> upvoteCount q1 = upvoteCount q + 1 \<and> q2 = q)"
    using f1 f2 by (simp add: toggle_upvote_twice toggle_upvote_fresh)
qed

(* value "run store_q [Http (Upvote 2 5 30), Http (Upvote 2 5 30), Http (Upvote 3 5 30)]" *)
(*value "map (\<lambda>acts. map (\<lambda>q. (upvotes q, upvoteCount q)) (questions (run store_q acts)))
  [[Http (Upvote 2 5 30)], [Http (Upvote 2 5 30), Http (Upvote 2 5 30)],  [Http (Upvote 2 5 30), Http (Upvote 2 5 30), Http (Upvote 3 5 30)]]"*)

theorem upvote_is_toggle_witness:
  "list_all qa_ok (questions store_q)
   \<and> findById q_id 30 (questions store_q) = Some question0
   \<and> 2 \<notin> set (upvotes question0)
   \<and> list_all (\<lambda>q. upvoteCount q = int (length (upvotes q))) (questions (run store_q qa_session))
   \<and> (\<exists>q1 q2.
         findById q_id 30 (questions (fst (snd (upvote_question store_q 2 5 30)))) = Some q1
       \<and> findById q_id 30
            (questions (fst (snd (upvote_question (fst (snd (upvote_question store_q 2 5 30)))
                                    2 5 30)))) = Some q2
       \<and> upvotes q1 = [2] \<and> upvoteCount q1 = 1 \<and> q2 = question0)"
proof -
  have h1: "list_all qa_ok (questions store_q)"
    by (simp add: store_q_def question0_def qa_ok_def)
  have h2: "findById q_id 30 (questions store_q) = Some question0"
    by (simp add: store_q_def question0_def findById_def)
  have h3: "2 \<notin> set (upvotes question0)" "upvotes question0 = []" "upvoteCount question0 = 0"
    by (simp_all add: question0_def)
  show ?thesis
    using upvote_is_toggle [of store_q qa_session 30 question0 2 5] h1 h2 h3 by simp
qed

text \<open>The scenario of the specification: user 2 upvotes, user 2 upvotes again, user 3
  upvotes.\<close>

lemma upvote_scenario:
 "map (\<lambda>acts. map (\<lambda>q. (upvotes q, upvoteCount q)) (questions (run store_q acts)))
  [[Http (Upvote 2 5 30)], [Http (Upvote 2 5 30), Http (Upvote 2 5 30)],
   [Http (Upvote 2 5 30), Http (Upvote 2 5 30), Http (Upvote 3 5 30)]]
  = [[([2], 1)], [([], 0)], [([3], 1)]]"
  by (simp add: store_q_def question0_def store0_def upvote_question_def findById_def save_doc_def
      toggle_upvote_def Let_def)


section \<open>Responses to an icebreaker\<close>

lemma respond_icebreaker_ok:
  "list_all ib_ok (icebreakers s) \<Longrightarrow>
   list_all ib_ok (icebreakers (fst (snd (respond_icebreaker s u n f e i r))))"
proof -
  have grow: "\<And>ib x. ib_ok ib \<Longrightarrow>
      ib_ok (ib\<lparr>responses := responses ib @ [x], responseCount := responseCount ib + 1\<rparr>)"
    by (simp add: ib_ok_def)
  assume "list_all ib_ok (icebreakers s)"
  then show ?thesis
    by (auto simp: respond_icebreaker_def reject_def Let_def
        intro!: save_doc_all grow dest: findById_all split: option.splits)
qed

lemma create_icebreaker_ok:
  "list_all ib_ok (icebreakers s) \<Longrightarrow>
   list_all ib_ok (icebreakers (fst (snd (create_icebreaker s u n f e q))))"
  by (auto simp: create_icebreaker_def reject_def Let_def ib_ok_def split: option.splits)

lemma step_ib_ok:
  "list_all ib_ok (icebreakers s) \<Longrightarrow> list_all ib_ok (icebreakers (fst (step s a)))"
proof (cases a)
  case (Http r)
  assume "list_all ib_ok (icebreakers s)"
  then show ?thesis using Http
    by (cases r) (simp_all add: keeps respond_icebreaker_ok create_icebreaker_ok)
next
  case (Socket k m)
  assume "list_all ib_ok (icebreakers s)"
  then show ?thesis using Socket by (simp add: keeps)
next
  case Tick
  assume "list_all ib_ok (icebreakers s)"
  then show ?thesis using Tick by (simp add: keeps)
qed

lemma run_ib_ok: "list_all ib_ok (icebreakers s) \<Longrightarrow> list_all ib_ok (icebreakers (run s acts))"
  by (induction acts arbitrary: s) (simp_all add: step_ib_ok)

lemma respond_twice_rejected:
  assumes "findById ib_id iid (icebreakers s) = Some ib"
    and "list_ex (\<lambda>r. r_userId r = user) (responses ib)"
  shows "respond_icebreaker s user now fresh e iid response =
           reject (if required_text response = None then Status400 ''Response is required''
                   else Status400 ''You have already responded to this question'') s"
proof -
  from assms(2) obtain x where "find (\<lambda>r. r_userId r = user) (responses ib) = Some x"
    by (cases "find (\<lambda>r. r_userId r = user) (responses ib)")
       (auto simp: find_None_iff list_ex_iff)
  with assms(1) show ?thesis
    by (simp add: respond_icebreaker_def split: option.splits)
qed

lemma respond_accepted_records:
  assumes "fst (respond_icebreaker s user now fresh e iid response) = Inr r"
  shows "\<exists>ib. findById ib_id iid (icebreakers (fst (snd (respond_icebreaker s user now fresh e iid response)))) = Some ib
           \<and> list_ex (\<lambda>r. r_userId r = user) (responses ib)"
  using assms
  by (auto simp: respond_icebreaker_def reject_def Let_def findById_save_doc findById_key
      split: option.splits if_splits)

text \<open>
  C7. \<open>responseCount\<close> is the length of \<open>responses\<close> for every icebreaker after
  every operation. A user who has a response on an icebreaker and responds again is
  rejected: the answer is an error, the store is as before and nothing is broadcast;
  the error is the 400 "You have already responded to this question" whenever the new
  response has text (a blank one is refused as such first). In particular the request
  that follows an accepted response of the same user is rejected in this way.
\<close>

theorem one_response_per_user:
  "(list_all ib_ok (icebreakers s) \<longrightarrow> list_all ib_ok (icebreakers (run s acts)))
   \<and> (findById ib_id iid (icebreakers s) = Some ib
        \<and> list_ex (\<lambda>r. r_userId r = user) (responses ib) \<longrightarrow>
        isl (fst (respond_icebreaker s user now fresh e iid response))
      \<and> fst (snd (respond_icebreaker s user now fresh e iid response)) = s
      \<and> snd (snd (respond_icebreaker s user now fresh e iid response)) = []
      \<and> (required_text response \<noteq> None \<longrightarrow>
           fst (respond_icebreaker s user now fresh e iid response)
             = Inl (Status400 ''You have already responded to this question'')))
   \<and> (fst (respond_icebreaker s user now fresh e iid response) = Inr r \<longrightarrow>
        respond_icebreaker (fst (snd (respond_icebreaker s user now fresh e iid response)))
           user now' fresh' e' iid (Some ''again'')
        = reject (Status400 ''You have already responded to this question'')
            (fst (snd (respond_icebreaker s user now fresh e iid response))))"
proof (intro conjI impI)
  assume "list_all ib_ok (icebreakers s)"
  then show "list_all ib_ok (icebreakers (run s acts))" by (rule run_ib_ok)
next
  assume a: "findById ib_id iid (icebreakers s) = Some ib
        \<and> list_ex (\<lambda>r. r_userId r = user) (responses ib)"
  note rej = respond_twice_rejected [of iid s ib user now fresh e response]
  from a rej show "isl (fst (respond_icebreaker s user now fresh e iid response))"
    by (simp add: reject_def)
  from a rej show "fst (snd (respond_icebreaker s user now fresh e iid response)) = s"
    by (simp add: reject_def)
  from a rej show "snd (snd (respond_icebreaker s user now fresh e iid response)) = []"
    by (simp add: reject_def)
  assume "required_text response \<noteq> None"
  with a rej show "fst (respond_icebreaker s user now fresh e iid response)
             = Inl (Status400 ''You have already responded to this question'')"
    by (simp add: reject_def)
next
  assume "fst (respond_icebreaker s user now fresh e iid response) = Inr r"
  from respond_accepted_records [OF this] obtain ib' where
    "findById ib_id iid (icebreakers (fst (snd (respond_icebreaker s user now fresh e iid response)))) = Some ib'"
    "list_ex (\<lambda>r. r_userId r = user) (responses ib')" by blast
  from respond_twice_rejected [OF this, of now' fresh' e' "Some ''again''"]
  show "respond_icebreaker (fst (snd (respond_icebreaker s user now fresh e iid response)))
           user now' fresh' e' iid (Some ''again'')
        = reject (Status400 ''You have already responded to this question'')
            (fst (snd (respond_icebreaker s user now fresh e iid response)))"
    by (simp add: required_text_def trim_def is_ws_def)
qed

theorem one_response_per_user_witness:
  "list_all ib_ok (icebreakers store_ib)
   \<and> list_all ib_ok (icebreakers (run store_ib ib_session))
   \<and> findById ib_id 40 (icebreakers store_ib) = Some icebreaker0
   \<and> list_ex (\<lambda>r. r_userId r = 2) (responses icebreaker0)
   \<and> respond_icebreaker store_ib 2 1002 42 5 40 (Some ''Milk'')
       = (Inl (Status400 ''You have already responded to this question''), store_ib, [])
   \<and> isl (fst (respond_icebreaker store_ib 3 1002 42 5 40 (Some ''Coffee''))) = False
   \<and> respond_icebreaker (fst (snd (respond_icebreaker store_ib 3 1002 42 5 40 (Some ''Coffee'')))) 3
         1003 43 5 40 (Some ''again'')
       = reject (Status400 ''You have already responded to this question'')
           (fst (snd (respond_icebreaker store_ib 3 1002 42 5 40 (Some ''Coffee''))))"
proof -
  have h1: "list_all ib_ok (icebreakers store_ib)"
    by (simp add: store_ib_def icebreaker0_def response0_def ib_ok_def)
  have h2: "findById ib_id 40 (icebreakers store_ib) = Some icebreaker0"
    by (simp add: store_ib_def icebreaker0_def findById_def)
  have h3: "list_ex (\<lambda>r. r_userId r = 2) (responses icebreaker0)"
    by (simp add: icebreaker0_def response0_def)
  have h4: "required_text (Some ''Milk'') \<noteq> None"
    by (simp add: required_text_def trim_def is_ws_def)
  have h5: "fst (respond_icebreaker store_ib 3 1002 42 5 40 (Some ''Coffee''))
            = Inr (ResponseAdded \<lparr>r_id = 42, r_userId = 3, r_response = ''Coffee'',
                                  r_timestamp = 1002\<rparr>)"
    by (simp add: respond_icebreaker_def store_ib_def store0_def icebreaker0_def response0_def
        findById_def required_text_def trim_def is_ws_def Let_def)
  have a: "respond_icebreaker store_ib 2 1002 42 5 40 (Some ''Milk'')
       = (Inl (Status400 ''You have already responded to this question''), store_ib, [])"
    using one_response_per_user [of store_ib ib_session 40 icebreaker0 2 1002 42 5 "Some ''Milk''"]
      h2 h3 h4
    by (metis prod.collapse)
  show ?thesis
    using one_response_per_user [of store_ib ib_session 40 icebreaker0 3 1002 42 5
        "Some ''Coffee''" _ 1003 43 5] h1 h2 h3 h5 a
    by simp
qed

section \<open>Votes for several options\<close>

text \<open>
  C1. The claim that a voter is in at most one option's \<open>votes\<close> of a poll with
  \<open>allowMultiple = false\<close>, and at most once in one option, evaluated at a poll with two
  options and no votes: the handler never reads \<open>allowMultiple\<close>, accepts the indexes
  \<open>[0, 1]\<close> of user 2 and puts the user in both lists, and accepts \<open>[0, 0]\<close> and puts
  the user twice in the first.
\<close>

theorem vote_for_two_options_counted:
  "allowMultiple poll0 = False
   \<and> polls store_p = [poll0]
   \<and> isl (fst (vote_poll store_p 2 1002 5 20 (Some [0, 1]))) = False
   \<and> map (\<lambda>p. map (\<lambda>option. map v_userId (votes option)) (options p))
         (polls (fst (snd (vote_poll store_p 2 1002 5 20 (Some [0, 1])))))
       = [[[Some 2], [Some 2]]]
   \<and> map (\<lambda>p. map (\<lambda>option. map v_userId (votes option)) (options p))
         (polls (fst (snd (vote_poll store_p 2 1002 5 20 (Some [0, 0])))))
       = [[[Some 2, Some 2], []]]"
  by code_simp

theorem vote_for_two_options_counted_witness:
  "allowMultiple poll0 = False
   \<and> isl (fst (vote_poll store_p 2 1002 5 20 (Some [0, 1]))) = False"
  using vote_for_two_options_counted by simp

text \<open>What does hold: a user who is in some option's \<open>votes\<close> is refused, with the
  store as before and no broadcast.\<close>

lemma vote_again_rejected:
  assumes "findById p_id pollId (polls s) = Some p" and "hasVoted p user"
  shows "isl (fst (vote_poll s user now e pollId idxs))
       \<and> fst (snd (vote_poll s user now e pollId idxs)) = s
       \<and> snd (snd (vote_poll s user now e pollId idxs)) = []"
  using assms by (auto simp: vote_poll_def reject_def split: option.splits)

section \<open>Photos and moderation\<close>

text \<open>
  C6. The claim that a photo that is not approved is in no room broadcast, evaluated
  after user 2 has shared a photo in an event that requires moderation: the photo is
  pending and \<^verbatim>\<open>new_photo\<close> was held back, but the like handler reads no status, and
  the uploader's like of it sends \<^verbatim>\<open>photo_like\<close> with the photo's id and like count
  to the room.
\<close>

theorem like_of_pending_photo_broadcast:
  "map (\<lambda>ph. (ph_id ph, ph_status ph)) (photos (run store0 photo_session)) = [(50, ph_pending)]
   \<and> snd (snd (handle (run store0 photo_session) (Like 2 5 50))) = [(5, photo_like 50 1 True)]"
  by code_simp

theorem like_of_pending_photo_broadcast_witness:
  "snd (snd (handle (run store0 photo_session) (Like 2 5 50))) = [(5, photo_like 50 1 True)]"
  using like_of_pending_photo_broadcast by simp

text \<open>What does hold: the status of a shared photo follows \<open>moderationRequired\<close>, and
  \<^verbatim>\<open>new_photo\<close> is sent for an approved photo only.\<close>

lemma share_photo_status:
  assumes "fst (share_photo s user now fresh e url cap tgs) = Inr r"
    and "findLiveEventLive s e = Some le"
  shows "map (\<lambda>ph. (ph_id ph, ph_status ph))
           (photos (fst (snd (share_photo s user now fresh e url cap tgs))))
         = map (\<lambda>ph. (ph_id ph, ph_status ph)) (photos s)
           @ [(fresh, if moderationRequired (liveSettings le) then ph_pending else ph_approved)]
       \<and> (moderationRequired (liveSettings le) \<longrightarrow>
            snd (snd (share_photo s user now fresh e url cap tgs)) = [])"
  using assms
  by (auto simp: share_photo_def reject_def Let_def split: option.splits if_splits)

section \<open>Peak attendance\<close>

text \<open>
  C8. The claim that \<open>peakAttendance\<close> is the running maximum of the \<open>activeUsers\<close>
  values, evaluated on a run in which two sockets join the room before the event is
  started and one leaves afterwards: the leave handler stores \<open>activeUsers = 1\<close> and
  leaves \<open>peakAttendance\<close> at 0, and the next run of the metrics loop finds the count
  unchanged and does nothing. The list gives status, \<open>activeUsers\<close> and
  \<open>peakAttendance\<close> after the start, after the leave and after the tick.
\<close>

theorem peak_below_active_users:
  "map (\<lambda>n. map (\<lambda>le. (le_status le, activeUsers (metrics le), peakAttendance (metrics le)))
               (liveEvents (run store0 (take n early_join_session)))) [3, 4, 5]
   = [[(live, 0, 0)], [(live, 1, 0)], [(live, 1, 0)]]"
  by code_simp

theorem peak_below_active_users_witness:
  "map (\<lambda>le. (le_status le, activeUsers (metrics le), peakAttendance (metrics le)))
     (liveEvents (run store0 (take 4 early_join_session))) = [(live, 1, 0)]"
  using peak_below_active_users by simp

section \<open>The metrics loop\<close>

text \<open>
  C2, as stated, fails: with one chat message in a live room whose stored counters are
  all 0 and no socket in the room, a run of the loop changes nothing and sends nothing;
  \<open>totalInteractions\<close> stays 0 where \<open>updateMetrics\<close> would give 1.
\<close>

theorem tick_leaves_totalInteractions:
  "tick store_m = (store_m, [])
   \<and> map (\<lambda>le. (le_status le, totalInteractions (metrics le))) (liveEvents (fst (tick store_m)))
       = [(live, 0)]
   \<and> map (\<lambda>le. totalInteractions (metrics (updateMetrics store_m le))) (liveEvents store_m) = [1]"
  by code_simp

lemma reconcile_id [simp]: "le_id (reconcile s le) = le_id le"
  by (simp add: reconcile_def Let_def)

lemma reconcile_rooms:
  "rooms s = rooms s0 \<Longrightarrow> reconcile s le = reconcile s0 le"
  "rooms s = rooms s0 \<Longrightarrow> reconcile_notice s le = reconcile_notice s0 le"
  by (simp_all add: reconcile_def reconcile_notice_def getActiveUsersCount_def)

lemma save_doc_present:
  "distinct (map key xs) \<Longrightarrow> x \<in> set xs \<Longrightarrow> key d = key x \<Longrightarrow>
   save_doc key d xs = map (\<lambda>y. if y = x then d else y) xs"
proof -
  assume d: "distinct (map key xs)" and x: "x \<in> set xs" and k: "key d = key x"
  from x k have ex: "list_ex (\<lambda>y. key y = key d) xs" by (auto simp: list_ex_iff)
  have "\<And>y. y \<in> set xs \<Longrightarrow> (key y = key d) = (y = x)"
    using d x k by (auto simp: distinct_map inj_on_def)
  then have "map (\<lambda>y. if key y = key d then d else y) xs = map (\<lambda>y. if y = x then d else y) xs"
    by (intro map_cong) auto
  with ex show ?thesis by (simp add: save_doc_def)
qed

lemma map_map_same: "(\<And>x. g (f x) = g x) \<Longrightarrow> map g (map f xs) = map g xs"
  by (induction xs) auto

lemma tick_one_char:
  assumes "distinct (map le_id (liveEvents s))" and "le \<in> set (liveEvents s)"
    and "rooms s = rooms s0"
  shows "tick_one s le =
     (s\<lparr>liveEvents := map (\<lambda>y. if y = le then reconcile s0 le else y) (liveEvents s)\<rparr>,
      reconcile_notice s0 le)"
proof (cases "getActiveUsersCount s (le_eventId le) = activeUsers (metrics le)")
  case True
  have r: "reconcile s0 le = le"
    using True reconcile_rooms(1)[OF assms(3), of le] by (simp add: reconcile_def)
  have n: "reconcile_notice s0 le = []"
    using True reconcile_rooms(2)[OF assms(3), of le] by (simp add: reconcile_notice_def)
  have "map (\<lambda>y. if y = le then reconcile s0 le else y) (liveEvents s) = liveEvents s"
    by (rule map_idI) (simp add: r)
  then have "s\<lparr>liveEvents := map (\<lambda>y. if y = le then reconcile s0 le else y) (liveEvents s)\<rparr> = s"
    by (simp only: db.surjective db.update_convs) simp
  with True n show ?thesis
    by (simp add: tick_one_def Let_def)
next
  case False
  let ?n = "getActiveUsersCount s (le_eventId le)"
  let ?m' = "(if ?n > peakAttendance ((metrics le)\<lparr>activeUsers := ?n\<rparr>)
             then (metrics le)\<lparr>activeUsers := ?n\<rparr>\<lparr>peakAttendance := ?n\<rparr>
             else (metrics le)\<lparr>activeUsers := ?n\<rparr>)"
  have c: "getActiveUsersCount s0 (le_eventId le) = ?n"
    using assms(3) by (simp add: getActiveUsersCount_def)
  have eq: "le\<lparr>metrics := ?m'\<rparr> = reconcile s0 le"
    using False by (auto simp: reconcile_def c Let_def max_def)
  have n: "reconcile_notice s0 le =
      [(le_eventId le, emit_metrics_update (activeUsers ?m') (peakAttendance ?m')
                         (totalInteractions ?m'))]"
    using False by (auto simp: reconcile_notice_def c Let_def max_def)
  have "le_id (reconcile s0 le) = le_id le" by simp
  with assms(1,2) have "save_doc le_id (reconcile s0 le) (liveEvents s)
        = map (\<lambda>y. if y = le then reconcile s0 le else y) (liveEvents s)"
    by (rule save_doc_present)
  with False eq n show ?thesis
    by (simp add: tick_one_def Let_def)
qed

lemma tick_loop_char:
  "distinct (map le_id (liveEvents s)) \<Longrightarrow> set les \<subseteq> set (liveEvents s) \<Longrightarrow>
   distinct (map le_id les) \<Longrightarrow> rooms s = rooms s0 \<Longrightarrow>
   tick_loop s les =
     (s\<lparr>liveEvents := map (\<lambda>y. if y \<in> set les then reconcile s0 y else y) (liveEvents s)\<rparr>,
      concat (map (reconcile_notice s0) les))"
proof (induction les arbitrary: s)
  case Nil
  then show ?case by simp
next
  case (Cons le rest)
  let ?cur = "liveEvents s"
  let ?cur1 = "map (\<lambda>y. if y = le then reconcile s0 le else y) ?cur"
  let ?s1 = "s\<lparr>liveEvents := ?cur1\<rparr>"
  from Cons.prems have le_in: "le \<in> set ?cur" by simp
  have one: "tick_one s le = (?s1, reconcile_notice s0 le)"
    using Cons.prems(1) le_in Cons.prems(4) by (rule tick_one_char)
  have ids: "map le_id ?cur1 = map le_id ?cur" by (rule map_map_same) simp
  have fresh: "\<And>y. y \<in> set rest \<Longrightarrow> le_id y \<noteq> le_id le"
    using Cons.prems(3) by (auto simp: image_iff)
  have cur1: "liveEvents ?s1 = ?cur1" by simp
  have d1: "distinct (map le_id (liveEvents ?s1))"
    using Cons.prems(1) by (simp only: cur1 ids)
  have sub1: "set rest \<subseteq> set (liveEvents ?s1)"
  proof
    fix y assume y: "y \<in> set rest"
    with Cons.prems(2) have "y \<in> set ?cur" by auto
    moreover from y fresh have "y \<noteq> le" by auto
    ultimately show "y \<in> set (liveEvents ?s1)" by (auto simp: image_iff)
  qed
  have d2: "distinct (map le_id rest)" using Cons.prems(3) by simp
  have r1: "rooms ?s1 = rooms s0" using Cons.prems(4) by simp
  have notin: "reconcile s0 le \<notin> set rest"
  proof
    assume "reconcile s0 le \<in> set rest"
    from fresh[OF this] show False by simp
  qed
  have lists: "map (\<lambda>y. if y \<in> set rest then reconcile s0 y else y) ?cur1
             = map (\<lambda>y. if y \<in> set (le # rest) then reconcile s0 y else y) ?cur"
    using notin by auto
  have "tick_loop ?s1 rest =
     (?s1\<lparr>liveEvents := map (\<lambda>y. if y \<in> set rest then reconcile s0 y else y) (liveEvents ?s1)\<rparr>,
      concat (map (reconcile_notice s0) rest))"
    using d1 sub1 d2 r1 by (rule Cons.IH)
  also have "?s1\<lparr>liveEvents := map (\<lambda>y. if y \<in> set rest then reconcile s0 y else y) (liveEvents ?s1)\<rparr>
      = s\<lparr>liveEvents := map (\<lambda>y. if y \<in> set (le # rest) then reconcile s0 y else y) ?cur\<rparr>"
    by (simp only: cur1 lists) simp
  finally have two: "tick_loop ?s1 rest =
     (s\<lparr>liveEvents := map (\<lambda>y. if y \<in> set (le # rest) then reconcile s0 y else y) ?cur\<rparr>,
      concat (map (reconcile_notice s0) rest))" .
  show ?case by (simp only: tick_loop.simps one two Let_def split_conv list.map concat.simps)
qed

text \<open>
  C2, amended. In a store whose live events have distinct ids, one run of the metrics
  loop replaces every live event by its \<open>reconcile\<close> and leaves the others alone, and
  sends the \<open>reconcile_notice\<close>s in order: for a live event whose room's member count
  differs from the stored \<open>activeUsers\<close> the count is stored, \<open>peakAttendance\<close> becomes
  the maximum of itself and the count, the document is saved and
  \<^verbatim>\<open>metrics_update\<close> is sent to the room; for one whose count is the stored value
  nothing is saved or sent. \<open>totalInteractions\<close> is never recomputed by the loop.
\<close>

theorem tick_reconciles_active_users:
  "distinct (map le_id (liveEvents s)) \<Longrightarrow>
   tick s =
     (s\<lparr>liveEvents := map (\<lambda>le. if le_status le = live then reconcile s le else le)
                          (liveEvents s)\<rparr>,
      concat (map (reconcile_notice s) (filter (\<lambda>le. le_status le = live) (liveEvents s))))
   \<and> map (\<lambda>le. totalInteractions (metrics le)) (liveEvents (fst (tick s)))
       = map (\<lambda>le. totalInteractions (metrics le)) (liveEvents s)"
proof -
  assume d: "distinct (map le_id (liveEvents s))"
  let ?les = "filter (\<lambda>le. le_status le = live) (liveEvents s)"
  have "tick_loop s ?les =
     (s\<lparr>liveEvents := map (\<lambda>y. if y \<in> set ?les then reconcile s y else y) (liveEvents s)\<rparr>,
      concat (map (reconcile_notice s) ?les))"
    using d by (intro tick_loop_char) (simp_all add: distinct_map_filter)
  moreover have "map (\<lambda>y. if y \<in> set ?les then reconcile s y else y) (liveEvents s)
      = map (\<lambda>le. if le_status le = live then reconcile s le else le) (liveEvents s)"
    by (intro map_cong) auto
  ultimately have t: "tick s =
     (s\<lparr>liveEvents := map (\<lambda>le. if le_status le = live then reconcile s le else le)
                          (liveEvents s)\<rparr>,
      concat (map (reconcile_notice s) ?les))"
    by (simp add: tick_def)
  have "\<And>le. totalInteractions (metrics (reconcile s le)) = totalInteractions (metrics le)"
    by (simp add: reconcile_def Let_def)
  then show ?thesis using t by (simp add: comp_def if_distrib cong: if_cong)
qed

theorem tick_reconciles_active_users_witness:
  "distinct (map le_id (liveEvents store_t))
   \<and> tick store_t =
       (store_t\<lparr>liveEvents :=
          [live_event0\<lparr>metrics := \<lparr>activeUsers = 2, totalInteractions = 0, peakAttendance = 2,
                                     averageEngagementTime = 0\<rparr>\<rparr>]\<rparr>,
        [(5, emit_metrics_update 2 2 0)])"
  using tick_reconciles_active_users [of store_t]
  by (simp add: store_t_def store_p_def store0_def live_event0_def reconcile_def
      reconcile_notice_def getActiveUsersCount_def)

section \<open>Start and end of a live event\<close>

text \<open>
  C3, as stated, fails: \<open>ended\<close> is not terminal. The start handler refuses a live
  event only, so the organiser's start of an ended event makes it live again; and the
  vote handler never looks at the live event, so a vote in a poll of an ended event is
  counted.
\<close>

theorem ended_event_starts_again:
  "map le_status (liveEvents store_e) = [ended]
   \<and> fst (start_live store_e 1 3000 11 5 None) = Inr (LiveEventStarted 10 live default_settings 3000)
   \<and> map le_status (liveEvents (fst (snd (start_live store_e 1 3000 11 5 None)))) = [live]
   \<and> isl (fst (vote_poll store_e 2 3000 5 20 (Some [0]))) = False
   \<and> map totalVotes (polls (fst (snd (vote_poll store_e 2 3000 5 20 (Some [0]))))) = [1]"
  by code_simp

lemma none_live_find: "none_live s e \<Longrightarrow> findLiveEventLive s e = None"
  by (auto simp: none_live_def findLiveEventLive_def find_None_iff list_all_iff)

lemma needs_live_rejected:
  "looks_up_live_event r = Some e \<Longrightarrow> none_live s e \<Longrightarrow>
   isl (fst (handle s r)) \<and> fst (snd (handle s r)) = s \<and> snd (snd (handle s r)) = []"
  by (cases r)
     (auto simp: create_icebreaker_def create_poll_def ask_question_def share_photo_def
        send_chat_def reject_def none_live_find split: option.splits)

lemma start_live_already:
  "findLiveEvent s e = Some le \<Longrightarrow> le_status le = live \<Longrightarrow>
   start_live s user now fresh e patch =
     reject (if isOrganizer s e user then Status400 ''Event is already live''
             else Status404 ''Event not found or access denied'') s"
  by (simp add: start_live_def)

lemma find_snoc:
  "find P (xs @ [y]) = (case find P xs of None \<Rightarrow> (if P y then Some y else None) | Some x \<Rightarrow> Some x)"
  by (induction xs) auto

lemma find_save_doc_same:
  assumes "ev d = e"
    and "\<And>x. find (\<lambda>x. ev x = e) xs = Some x \<Longrightarrow> key x = key d"
  shows "find (\<lambda>x. ev x = e) (save_doc key d xs) = Some d"
proof (cases "list_ex (\<lambda>x. key x = key d) xs")
  case False
  then have "find (\<lambda>x. ev x = e) xs = None"
    using assms(2) by (cases "find (\<lambda>x. ev x = e) xs") (auto simp: list_ex_iff find_Some_iff)
  with False assms(1) show ?thesis by (simp add: save_doc_def find_snoc)
next
  case True
  have "list_ex (\<lambda>x. key x = key d) xs \<Longrightarrow>
        (\<And>x. find (\<lambda>x. ev x = e) xs = Some x \<Longrightarrow> key x = key d) \<Longrightarrow>
        find (\<lambda>x. ev x = e) (map (\<lambda>x. if key x = key d then d else x) xs) = Some d"
  proof (induction xs)
    case Nil
    then show ?case by simp
  next
    case (Cons a xs)
    then show ?case using assms(1) by (auto split: if_splits)
  qed
  with True assms(2) show ?thesis by (simp add: save_doc_def)
qed

lemma start_live_success:
  assumes "fst (start_live s user now fresh e patch) = Inr r"
  shows "\<exists>le'. findLiveEvent (fst (snd (start_live s user now fresh e patch))) e = Some le'
           \<and> le_status le' = live \<and> startedAt le' = Some now
           \<and> r = LiveEventStarted (le_id le') live (liveSettings le') now
           \<and> snd (snd (start_live s user now fresh e patch))
               = [(e, event_started e (le_id le') now)]"
proof -
  let ?found = "findLiveEvent s e"
  let ?created = "(case ?found of None \<Rightarrow> new_LiveEvent fresh e patch | Some le \<Rightarrow> le)"
  let ?started = "?created\<lparr>le_status := live, startedAt := Some now\<rparr>"
  let ?le = "(case patch of None \<Rightarrow> ?started
              | Some p \<Rightarrow> ?started\<lparr>liveSettings := merge_settings (liveSettings ?started) p\<rparr>)"
  from assms have ok: "isOrganizer s e user"
    "\<not> (case ?found of None \<Rightarrow> False | Some le \<Rightarrow> le_status le = live)"
    by (auto simp: start_live_def reject_def Let_def split: if_splits)
  then have out: "start_live s user now fresh e patch =
      (Inr (LiveEventStarted (le_id ?le) (le_status ?le) (liveSettings ?le) now),
       s\<lparr>liveEvents := save_doc le_id ?le (liveEvents s)\<rparr>,
       [(e, event_started e (le_id ?le) now)])"
    by (simp add: start_live_def Let_def)
  have ev: "le_eventId ?le = e"
    by (auto simp: new_LiveEvent_def findLiveEvent_def find_Some_iff split: option.splits)
  have st: "le_status ?le = live" "startedAt ?le = Some now"
    by (auto split: option.splits)
  have key: "\<And>x. find (\<lambda>x. le_eventId x = e) (liveEvents s) = Some x \<Longrightarrow> le_id x = le_id ?le"
    by (auto simp: findLiveEvent_def split: option.splits)
  have "find (\<lambda>x. le_eventId x = e) (save_doc le_id ?le (liveEvents s)) = Some ?le"
    using ev key by (rule find_save_doc_same)
  then have "findLiveEvent (fst (snd (start_live s user now fresh e patch))) e = Some ?le"
    by (simp add: out findLiveEvent_def)
  moreover from assms out st have "r = LiveEventStarted (le_id ?le) live (liveSettings ?le) now"
    by simp
  ultimately show ?thesis using st out by simp
qed

lemma handle_ignores_live_event:
  "ignores_live_event r \<Longrightarrow>
   handle (s\<lparr>liveEvents := L\<rparr>) r
     = (fst (handle s r), (fst (snd (handle s r)))\<lparr>liveEvents := L\<rparr>, snd (snd (handle s r)))"
  by (cases r)
     (auto simp: respond_icebreaker_def vote_poll_def upvote_question_def like_photo_def
        reject_def Let_def split: option.splits)

text \<open>
  C3, amended. Starting an event whose LiveEvent is live fails with the store unchanged
  and no broadcast (for the organiser with 400 "Event is already live"). On a successful
  start the event's LiveEvent has status \<open>live\<close> and \<open>startedAt\<close> set to the time of
  the request, and \<^verbatim>\<open>event_started\<close> is broadcast to the room. While no LiveEvent of
  the event is live, in particular once it is ended, the operations that look the live
  event up (create icebreaker, create poll, ask a question, share a photo, send chat)
  are rejected with the store unchanged and no broadcast. Vote, upvote, like and respond
  do not depend on the live events at all: whatever these are, the answer, the
  broadcasts and the rest of the store are the same.
\<close>

theorem start_and_end_of_interaction:
  "(findLiveEvent s e = Some le \<and> le_status le = live \<longrightarrow>
      isl (fst (start_live s user now fresh e patch))
    \<and> fst (snd (start_live s user now fresh e patch)) = s
    \<and> snd (snd (start_live s user now fresh e patch)) = []
    \<and> (isOrganizer s e user \<longrightarrow>
         fst (start_live s user now fresh e patch) = Inl (Status400 ''Event is already live'')))
   \<and> (fst (start_live s user now fresh e patch) = Inr r \<longrightarrow>
       (\<exists>le'. findLiveEvent (fst (snd (start_live s user now fresh e patch))) e = Some le'
           \<and> le_status le' = live \<and> startedAt le' = Some now
           \<and> snd (snd (start_live s user now fresh e patch))
               = [(e, event_started e (le_id le') now)]))
   \<and> (looks_up_live_event req = Some e \<and> none_live s e \<longrightarrow>
        isl (fst (handle s req)) \<and> fst (snd (handle s req)) = s \<and> snd (snd (handle s req)) = [])
   \<and> (ignores_live_event req' \<longrightarrow>
        handle (s\<lparr>liveEvents := L\<rparr>) req'
          = (fst (handle s req'), (fst (snd (handle s req')))\<lparr>liveEvents := L\<rparr>,
             snd (snd (handle s req'))))"
proof (intro conjI impI)
  assume a: "findLiveEvent s e = Some le \<and> le_status le = live"
  then have rej: "start_live s user now fresh e patch =
     reject (if isOrganizer s e user then Status400 ''Event is already live''
             else Status404 ''Event not found or access denied'') s"
    by (simp add: start_live_already)
  show "isl (fst (start_live s user now fresh e patch))" by (simp add: rej reject_def)
  show "fst (snd (start_live s user now fresh e patch)) = s" by (simp add: rej reject_def)
  show "snd (snd (start_live s user now fresh e patch)) = []" by (simp add: rej reject_def)
  assume "isOrganizer s e user"
  then show "fst (start_live s user now fresh e patch) = Inl (Status400 ''Event is already live'')"
    by (simp add: rej reject_def)
next
  assume "fst (start_live s user now fresh e patch) = Inr r"
  from start_live_success [OF this]
  show "\<exists>le'. findLiveEvent (fst (snd (start_live s user now fresh e patch))) e = Some le'
           \<and> le_status le' = live \<and> startedAt le' = Some now
           \<and> snd (snd (start_live s user now fresh e patch))
               = [(e, event_started e (le_id le') now)]"
    by blast
next
  assume a: "looks_up_live_event req = Some e \<and> none_live s e"
  then show "isl (fst (handle s req))" using needs_live_rejected by blast
  from a show "fst (snd (handle s req)) = s" using needs_live_rejected by blast
  from a show "snd (snd (handle s req)) = []" using needs_live_rejected by blast
next
  assume "ignores_live_event req'"
  then show "handle (s\<lparr>liveEvents := L\<rparr>) req'
          = (fst (handle s req'), (fst (snd (handle s req')))\<lparr>liveEvents := L\<rparr>,
             snd (snd (handle s req')))"
    by (rule handle_ignores_live_event)
qed

theorem start_and_end_of_interaction_witness:
  "findLiveEvent store_p 5 = Some live_event0 \<and> le_status live_event0 = live
   \<and> isOrganizer store_p 5 1
   \<and> start_live store_p 1 3000 11 5 None = (Inl (Status400 ''Event is already live''), store_p, [])
   \<and> fst (start_live store0 1 3000 11 5 None) = Inr (LiveEventStarted 11 live default_settings 3000)
   \<and> (\<exists>le'. findLiveEvent (fst (snd (start_live store0 1 3000 11 5 None))) 5 = Some le'
          \<and> le_status le' = live \<and> startedAt le' = Some 3000
          \<and> snd (snd (start_live store0 1 3000 11 5 None)) = [(5, event_started 5 (le_id le') 3000)])
   \<and> looks_up_live_event (Chat 2 3000 61 5 (Some ''hi'') None) = Some 5
   \<and> none_live store_e 5
   \<and> isl (fst (handle store_e (Chat 2 3000 61 5 (Some ''hi'') None)))
   \<and> fst (snd (handle store_e (Chat 2 3000 61 5 (Some ''hi'') None))) = store_e
   \<and> snd (snd (handle store_e (Chat 2 3000 61 5 (Some ''hi'') None))) = []
   \<and> ignores_live_event (Vote 2 3000 5 20 (Some [0]))
   \<and> fst (handle store_e (Vote 2 3000 5 20 (Some [0])))
       = fst (handle store_p (Vote 2 3000 5 20 (Some [0])))"
proof -
  have h1: "findLiveEvent store_p 5 = Some live_event0" "le_status live_event0 = live"
    "isOrganizer store_p 5 1"
    by (simp_all add: findLiveEvent_def store_p_def store0_def live_event0_def isOrganizer_def)
  have h2: "fst (start_live store0 1 3000 11 5 None)
            = Inr (LiveEventStarted 11 live default_settings 3000)"
    by (simp add: start_live_def store0_def isOrganizer_def findLiveEvent_def new_LiveEvent_def
        Let_def)
  have h3: "looks_up_live_event (Chat 2 3000 61 5 (Some ''hi'') None) = Some 5"
    "none_live store_e 5"
    by (simp_all add: none_live_def store_e_def store0_def live_event0_def)
  have a: "start_live store_p 1 3000 11 5 None
           = (Inl (Status400 ''Event is already live''), store_p, [])"
    using start_and_end_of_interaction [of store_p 5 live_event0 1 3000 11 None] h1
    by (metis prod.collapse)
  have h4: "store_e = store_p\<lparr>liveEvents := liveEvents store_e\<rparr>"
    by (simp add: store_e_def store_p_def)
  have b: "fst (handle store_e (Vote 2 3000 5 20 (Some [0])))
           = fst (handle store_p (Vote 2 3000 5 20 (Some [0])))"
    using start_and_end_of_interaction [of store_p 5 live_event0 1 3000 11 None
        "LiveEventStarted 11 live default_settings 3000" "Start 1 3000 11 5 None"
        "Vote 2 3000 5 20 (Some [0])" "liveEvents store_e"] h4
    by simp
  show ?thesis
    using start_and_end_of_interaction [of store0 5 live_event0 1 3000 11 None
        "LiveEventStarted 11 live default_settings 3000" "Start 1 3000 11 5 None"]
      start_and_end_of_interaction [of store_e 5 live_event0 1 3000 11 None
        "LiveEventStarted 11 live default_settings 3000" "Chat 2 3000 61 5 (Some ''hi'') None"]
      h1 h2 h3 a b
    by simp
qed

section \<open>The feature toggles\<close>

lemma mask_fields [simp]:
  "events (mask_store s) = events s" "icebreakers (mask_store s) = icebreakers s"
  "polls (mask_store s) = polls s" "questions (mask_store s) = questions s"
  "photos (mask_store s) = photos s" "chats (mask_store s) = chats s"
  "rooms (mask_store s) = rooms s" "socket_eventId (mask_store s) = socket_eventId s"
  "liveEvents (mask_store s) = map mask_toggles (liveEvents s)"
  by (simp_all add: mask_store_def)

lemma mask_updates [simp]:
  "mask_store (s\<lparr>icebreakers := a\<rparr>) = (mask_store s)\<lparr>icebreakers := a\<rparr>"
  "mask_store (s\<lparr>polls := b\<rparr>) = (mask_store s)\<lparr>polls := b\<rparr>"
  "mask_store (s\<lparr>questions := c\<rparr>) = (mask_store s)\<lparr>questions := c\<rparr>"
  "mask_store (s\<lparr>photos := d\<rparr>) = (mask_store s)\<lparr>photos := d\<rparr>"
  "mask_store (s\<lparr>chats := f\<rparr>) = (mask_store s)\<lparr>chats := f\<rparr>"
  by (simp_all add: mask_store_def)

lemma mask_toggles_fields [simp]:
  "le_id (mask_toggles le) = le_id le" "le_eventId (mask_toggles le) = le_eventId le"
  "le_status (mask_toggles le) = le_status le"
  "moderationRequired (liveSettings (mask_toggles le)) = moderationRequired (liveSettings le)"
  by (simp_all add: mask_toggles_def)

lemma find_map_same: "(\<And>x. P (f x) = P x) \<Longrightarrow> find P (map f xs) = map_option f (find P xs)"
  by (induction xs) auto

lemma findLiveEventLive_mask:
  "findLiveEventLive (mask_store s) e = map_option mask_toggles (findLiveEventLive s e)"
  by (simp add: findLiveEventLive_def find_map_same)

lemma isOrganizer_mask [simp]: "isOrganizer (mask_store s) e u = isOrganizer s e u"
  by (simp add: isOrganizer_def)

lemma handle_mask:
  "interaction r \<Longrightarrow>
   handle (mask_store s) r = (fst (handle s r), mask_store (fst (snd (handle s r))), snd (snd (handle s r)))"
proof (cases r)
  case (CreateIcebreaker user now fresh eventId question)
  then show ?thesis
    by (auto simp: create_icebreaker_def reject_def findLiveEventLive_mask Let_def
        split: option.splits)
next
  case (Respond user now fresh eventId icebreakerId response)
  then show ?thesis
    by (auto simp: respond_icebreaker_def reject_def Let_def split: option.splits)
next
  case (CreatePoll user now fresh eventId question opts allowMult expiresIn)
  then show ?thesis
    by (auto simp: create_poll_def reject_def findLiveEventLive_mask Let_def
        split: option.splits)
next
  case (Vote user now eventId pollId optionIndexes)
  then show ?thesis
    by (auto simp: vote_poll_def reject_def Let_def split: option.splits)
next
  case (Ask user now fresh eventId question)
  then show ?thesis
    by (auto simp: ask_question_def reject_def findLiveEventLive_mask Let_def
        split: option.splits)
next
  case (Upvote user eventId questionId)
  then show ?thesis
    by (auto simp: upvote_question_def reject_def Let_def split: option.splits)
next
  case (Answer user now eventId questionId answerText)
  then show ?thesis
    by (auto simp: answer_question_def reject_def Let_def split: option.splits)
next
  case (SharePhoto user now fresh eventId url cap tgs)
  then show ?thesis
    by (auto simp: share_photo_def reject_def findLiveEventLive_mask Let_def
        split: option.splits)
next
  case (Like user eventId photoId)
  then show ?thesis
    by (auto simp: like_photo_def reject_def Let_def split: option.splits)
next
  case (Chat user now fresh eventId message mtype)
  then show ?thesis
    by (auto simp: send_chat_def reject_def findLiveEventLive_mask Let_def
        split: option.splits)
qed simp_all

lemma handle_keeps_liveEvents:
  "interaction r \<Longrightarrow> liveEvents (fst (snd (handle s r))) = liveEvents s"
  by (cases r)
     (auto simp: create_icebreaker_def respond_icebreaker_def create_poll_def vote_poll_def
        ask_question_def upvote_question_def answer_question_def share_photo_def like_photo_def
        send_chat_def reject_def Let_def split: option.splits)

text \<open>
  C10. No interaction operation reads \<open>enableChat\<close>, \<open>enablePolls\<close>, \<open>enableQA\<close> or
  \<open>enablePhotoSharing\<close>: from two stores that differ in those four flags only, every
  request but start and end gets the same answer, sends the same broadcasts and leaves
  stores that again differ in those flags only (the live events, and so the flags, are
  as before the request). \<open>moderationRequired\<close>, which the masking keeps, is the one
  setting an interaction depends on.
\<close>

theorem toggles_never_read:
  "interaction r \<Longrightarrow> mask_store s = mask_store s' \<Longrightarrow>
     fst (handle s r) = fst (handle s' r)
   \<and> snd (snd (handle s r)) = snd (snd (handle s' r))
   \<and> mask_store (fst (snd (handle s r))) = mask_store (fst (snd (handle s' r)))
   \<and> liveEvents (fst (snd (handle s r))) = liveEvents s
   \<and> liveEvents (fst (snd (handle s' r))) = liveEvents s'"
proof -
  assume i: "interaction r" and m: "mask_store s = mask_store s'"
  have "handle (mask_store s) r = handle (mask_store s') r" using m by simp
  then have "(fst (handle s r), mask_store (fst (snd (handle s r))), snd (snd (handle s r)))
           = (fst (handle s' r), mask_store (fst (snd (handle s' r))), snd (snd (handle s' r)))"
    by (simp only: handle_mask [OF i])
  then show ?thesis using handle_keeps_liveEvents [OF i] by simp
qed

theorem toggles_never_read_witness:
  "interaction (Chat 2 3000 61 5 (Some ''hi'') None)
   \<and> mask_store store_p = mask_store store_off
   \<and> map (\<lambda>le. enableChat (liveSettings le)) (liveEvents store_p) = [True]
   \<and> map (\<lambda>le. enableChat (liveSettings le)) (liveEvents store_off) = [False]
   \<and> fst (handle store_off (Chat 2 3000 61 5 (Some ''hi'') None)) = Inr (MessageSent 61 2 ''hi'' 3000)
   \<and> fst (handle store_p (Chat 2 3000 61 5 (Some ''hi'') None)) = Inr (MessageSent 61 2 ''hi'' 3000)
   \<and> snd (snd (handle store_p (Chat 2 3000 61 5 (Some ''hi'') None)))
       = snd (snd (handle store_off (Chat 2 3000 61 5 (Some ''hi'') None)))
   \<and> liveEvents (fst (snd (handle store_off (Chat 2 3000 61 5 (Some ''hi'') None))))
       = liveEvents store_off"
proof -
  have h1: "mask_store store_p = mask_store store_off"
    by (simp add: mask_store_def mask_toggles_def store_off_def store_p_def store0_def live_event0_def
        default_settings_def)
  have h2: "map (\<lambda>le. enableChat (liveSettings le)) (liveEvents store_p) = [True]"
    "map (\<lambda>le. enableChat (liveSettings le)) (liveEvents store_off) = [False]"
    by (simp_all add: store_off_def store_p_def store0_def live_event0_def default_settings_def)
  have h3: "fst (handle store_off (Chat 2 3000 61 5 (Some ''hi'') None))
            = Inr (MessageSent 61 2 ''hi'' 3000)"
    by code_simp
  show ?thesis
    using toggles_never_read [of "Chat 2 3000 61 5 (Some ''hi'') None" store_p store_off] h1 h2 h3
    by simp
qed

text \<open>\<open>moderationRequired\<close> is read: the same photo is pending and held back with it,
  approved and broadcast without it.\<close>

lemma moderation_is_read:
  "snd (snd (share_photo store_p 2 1001 50 5 (Some ''u'') None None)) = []
   \<and> snd (snd (share_photo
        (store_p\<lparr>liveEvents :=
           [live_event0\<lparr>liveSettings := default_settings\<lparr>moderationRequired := False\<rparr>\<rparr>]\<rparr>)
        2 1001 50 5 (Some ''u'') None None)) = [(5, new_photo 50 ''u'' [] 2 0 1001)]"
  by code_simp

section \<open>Percentages of a poll result\<close>

lemma bitlen_bounds:
  "0 < p \<Longrightarrow> 1 \<le> bitlen p \<and> 2 ^ nat (bitlen p - 1) \<le> p \<and> p < 2 ^ nat (bitlen p)"
proof (induction p rule: bitlen.induct)
  case (1 p)
  show ?case
  proof (cases "p = 1")
    case True
    have "bitlen 0 = 0" by (subst bitlen.simps) simp
    then have "bitlen 1 = 1" by (subst bitlen.simps) simp
    with True show ?thesis by simp
  next
    case False
    with "1.prems" have h: "0 < p div 2" by simp
    from "1.prems" have np: "\<not> p \<le> 0" by simp
    from "1.IH"[OF np h] have
      b1: "1 \<le> bitlen (p div 2)" and
      lo: "2 ^ nat (bitlen (p div 2) - 1) \<le> p div 2" and
      hi: "p div 2 < 2 ^ nat (bitlen (p div 2))" by simp_all
    have bl: "bitlen p = 1 + bitlen (p div 2)" using np by (subst bitlen.simps) simp
    have e1: "nat (bitlen p - 1) = Suc (nat (bitlen (p div 2) - 1))" using bl b1 by simp
    have e2: "nat (bitlen p) = Suc (nat (bitlen (p div 2)))" using bl b1 by simp
    have "2 * 2 ^ nat (bitlen (p div 2) - 1) \<le> 2 * (p div 2)" using lo by simp
    also have "\<dots> \<le> p" by simp
    finally have L: "2 ^ nat (bitlen p - 1) \<le> p" by (simp add: e1)
    have "p div 2 + 1 \<le> 2 ^ nat (bitlen (p div 2))" using hi by simp
    then have "2 * (p div 2) + 2 \<le> 2 * 2 ^ nat (bitlen (p div 2))" by simp
    moreover have "p < 2 * (p div 2) + 2" by presburger
    ultimately have H: "p < 2 ^ nat (bitlen p)" by (simp add: e2)
    from bl b1 L H show ?thesis by simp
  qed
qed

lemma rne_close: "\<bar>of_int (rne x) - x\<bar> \<le> 1 / 2"
proof -
  let ?f = "\<lfloor>x\<rfloor>"
  have f: "of_int ?f \<le> x" "x < of_int ?f + 1" by linarith+
  consider "x - of_int ?f < 1 / 2" | "1 / 2 < x - of_int ?f" | "x - of_int ?f = 1 / 2"
    by linarith
  then show ?thesis
  proof cases
    case 1
    then have "rne x = ?f" by (simp add: rne_def Let_def)
    with f 1 show ?thesis by simp
  next
    case 2
    then have "rne x = ?f + 1" by (simp add: rne_def Let_def)
    with f 2 show ?thesis by (simp add: abs_if)
  next
    case 3
    then have "rne x = ?f \<or> rne x = ?f + 1" by (simp add: rne_def Let_def)
    with f 3 show ?thesis by (auto simp: abs_if)
  qed
qed

lemma binade_le: assumes "x \<noteq> 0" shows "2 powi (binade x) \<le> \<bar>x\<bar>"
proof -
  obtain p q where pq: "quotient_of \<bar>x\<bar> = (p, q)" by (cases "quotient_of \<bar>x\<bar>")
  then have q: "0 < q" and x: "\<bar>x\<bar> = of_int p / of_int q"
    by (simp_all add: quotient_of_denom_pos quotient_of_div)
  from assms have "0 < \<bar>x\<bar>" by simp
  with x q have p: "0 < p" by (simp add: zero_less_divide_iff)
  let ?n = "bitlen p - bitlen q"
  show ?thesis
  proof (cases "2 powi ?n \<le> \<bar>x\<bar>")
    case True
    then show ?thesis by (simp add: binade_def pq)
  next
    case False
    then have b: "binade x = ?n - 1" by (simp add: binade_def pq)
    from bitlen_bounds[OF p] have bp: "1 \<le> bitlen p" "2 ^ nat (bitlen p - 1) \<le> p" by simp_all
    from bitlen_bounds[OF q] have bq: "1 \<le> bitlen q" "q < 2 ^ nat (bitlen q)" by simp_all
    have "?n - 1 = int (nat (bitlen p - 1)) - int (nat (bitlen q))" using bp bq by simp
    moreover have "(2::rat) powi (int (nat (bitlen p - 1)) - int (nat (bitlen q)))
        = 2 powi int (nat (bitlen p - 1)) / 2 powi int (nat (bitlen q))"
      by (rule power_int_diff) simp
    ultimately have "(2::rat) powi (?n - 1) = 2 ^ nat (bitlen p - 1) / 2 ^ nat (bitlen q)"
      by (simp only: power_int_of_nat)
    also have "\<dots> \<le> of_int p / of_int q"
    proof (rule frac_le)
      show "(0::rat) \<le> of_int p" using p by simp
      have "(of_int (2 ^ nat (bitlen p - 1)) :: rat) \<le> of_int p" using bp(2) by (simp only: of_int_le_iff)
      then show "(2::rat) ^ nat (bitlen p - 1) \<le> of_int p" by simp
      show "(0::rat) < of_int q" using q by simp
      have "(of_int q :: rat) \<le> of_int (2 ^ nat (bitlen q))" using bq(2) by (simp only: of_int_le_iff)
      then show "(of_int q :: rat) \<le> 2 ^ nat (bitlen q)" by simp
    qed
    finally show ?thesis using b x by simp
  qed
qed

lemma binade_less: assumes "x \<noteq> 0" shows "\<bar>x\<bar> < 2 powi (binade x + 1)"
proof -
  obtain p q where pq: "quotient_of \<bar>x\<bar> = (p, q)" by (cases "quotient_of \<bar>x\<bar>")
  then have q: "0 < q" and x: "\<bar>x\<bar> = of_int p / of_int q"
    by (simp_all add: quotient_of_denom_pos quotient_of_div)
  from assms have "0 < \<bar>x\<bar>" by simp
  with x q have p: "0 < p" by (simp add: zero_less_divide_iff)
  let ?n = "bitlen p - bitlen q"
  show ?thesis
  proof (cases "2 powi ?n \<le> \<bar>x\<bar>")
    case False
    then show ?thesis by (simp add: binade_def pq)
  next
    case True
    then have b: "binade x = ?n" by (simp add: binade_def pq)
    from bitlen_bounds[OF p] have bp: "1 \<le> bitlen p" "p < 2 ^ nat (bitlen p)" by simp_all
    from bitlen_bounds[OF q] have bq: "1 \<le> bitlen q" "2 ^ nat (bitlen q - 1) \<le> q" by simp_all
    have "of_int p / of_int q < (2::rat) ^ nat (bitlen p) / 2 ^ nat (bitlen q - 1)"
    proof (rule frac_less)
      show "(0::rat) \<le> of_int p" using p by simp
      have "(of_int p :: rat) < of_int (2 ^ nat (bitlen p))" using bp(2) by (simp only: of_int_less_iff)
      then show "(of_int p :: rat) < 2 ^ nat (bitlen p)" by simp
      show "(0::rat) < 2 ^ nat (bitlen q - 1)" by simp
      have "(of_int (2 ^ nat (bitlen q - 1)) :: rat) \<le> of_int q" using bq(2) by (simp only: of_int_le_iff)
      then show "(2::rat) ^ nat (bitlen q - 1) \<le> of_int q" by simp
    qed
    moreover have "?n + 1 = int (nat (bitlen p)) - int (nat (bitlen q - 1))" using bp bq by simp
    moreover have "(2::rat) powi (int (nat (bitlen p)) - int (nat (bitlen q - 1)))
        = 2 powi int (nat (bitlen p)) / 2 powi int (nat (bitlen q - 1))"
      by (rule power_int_diff) simp
    ultimately have "of_int p / of_int q < (2::rat) powi (?n + 1)"
      by (simp only: power_int_of_nat)
    then show ?thesis using b x by simp
  qed
qed

lemma binary64_error: "\<bar>binary64 x - x\<bar> \<le> \<bar>x\<bar> / 2 ^ 53"
proof (cases "x = 0")
  case True
  then show ?thesis by (simp add: binary64_def)
next
  case False
  let ?u = "(2::rat) powi (binade x - 52)"
  have u: "0 < ?u" by simp
  have "binary64 x - x = (of_int (rne (x / ?u)) - x / ?u) * ?u"
    using False u by (simp add: binary64_def Let_def field_simps)
  then have "\<bar>binary64 x - x\<bar> = \<bar>of_int (rne (x / ?u)) - x / ?u\<bar> * ?u"
    using u by (simp add: abs_mult)
  also have "\<dots> \<le> (1 / 2) * ?u"
    using rne_close[of "x / ?u"] u by (intro mult_right_mono) simp_all
  also have "\<dots> = 2 powi (binade x) / 2 ^ 53"
    by (simp add: power_int_diff)
  also have "\<dots> \<le> \<bar>x\<bar> / 2 ^ 53"
    using binade_le[OF False] by (intro divide_right_mono) simp_all
  finally show ?thesis .
qed


lemma scaled_error:
  fixes a b e :: rat
  assumes "\<bar>a - b\<bar> \<le> e"
  shows "\<bar>a * 100 - 100 * b\<bar> \<le> 100 * e"
proof -
  have "a * 100 - 100 * b = 100 * (a - b)" by (simp add: algebra_simps)
  then have "\<bar>a * 100 - 100 * b\<bar> = \<bar>100\<bar> * \<bar>a - b\<bar>" by (simp only: abs_mult)
  with assms show ?thesis by simp
qed

lemma percentage_error:
  fixes X0 :: rat
  assumes X0: "0 \<le> X0" "X0 \<le> 1"
  shows "\<bar>binary64 (binary64 X0 * 100) - 100 * X0\<bar> \<le> 300 / 2 ^ 53"
proof -
  let ?x1 = "binary64 X0"
  let ?y = "?x1 * 100"
  let ?x2 = "binary64 ?y"
  have "\<bar>?x1 - X0\<bar> \<le> \<bar>X0\<bar> / 2 ^ 53" by (rule binary64_error)
  also have "\<dots> \<le> 1 / 2 ^ 53" using X0 by (intro divide_right_mono) simp_all
  finally have e1: "\<bar>?x1 - X0\<bar> \<le> 1 / 2 ^ 53" .
  have "\<bar>?x1\<bar> \<le> \<bar>?x1 - X0\<bar> + \<bar>X0\<bar>"
    using abs_triangle_ineq[of "?x1 - X0" X0] by (simp only: diff_add_cancel)
  also have "\<dots> \<le> 1 / 2 ^ 53 + 1"
  proof (rule add_mono)
    show "\<bar>?x1 - X0\<bar> \<le> 1 / 2 ^ 53" by (rule e1)
    show "\<bar>X0\<bar> \<le> 1" using X0 by (simp only: abs_of_nonneg)
  qed
  also have "\<dots> \<le> 2" by simp
  finally have x1: "\<bar>?x1\<bar> \<le> 2" .
  have "\<bar>?x2 - ?y\<bar> \<le> \<bar>?y\<bar> / 2 ^ 53" by (rule binary64_error)
  also have "\<dots> \<le> 200 / 2 ^ 53"
    using x1 by (intro divide_right_mono) (simp_all add: abs_mult)
  finally have e2: "\<bar>?x2 - ?y\<bar> \<le> 200 / 2 ^ 53" .
  have e3: "\<bar>?y - 100 * X0\<bar> \<le> 100 * (1 / 2 ^ 53)" using e1 by (rule scaled_error)
  have "\<bar>?x2 - 100 * X0\<bar> \<le> \<bar>?x2 - ?y\<bar> + \<bar>?y - 100 * X0\<bar>"
    using abs_triangle_ineq[of "?x2 - ?y" "?y - 100 * X0"] by (simp only: diff_add_cancel add_diff_eq)
  also have "\<dots> \<le> 200 / 2 ^ 53 + 100 * (1 / 2 ^ 53)" using e2 e3 by (rule add_mono)
  finally show ?thesis by simp
qed

lemma percentage_nearest:
  assumes "0 \<le> v" "v \<le> t" "0 < t" "t \<le> 2 ^ 43"
  shows "\<bar>of_int (percentage v t) - 100 * of_int v / of_int t\<bar> \<le> (1 / 2 :: rat)"
proof -
  let ?X = "100 * of_int v / of_int t :: rat"
  let ?x2 = "binary64 (binary64 (of_int v / of_int t) * 100)"
  let ?k = "percentage v t"
  have k: "?k = \<lfloor>?x2 + 1 / 2\<rfloor>" using assms(3) by (simp add: percentage_def Math_round_def)
  have lo: "of_int ?k \<le> ?x2 + 1 / 2" and hi: "?x2 + 1 / 2 < of_int ?k + 1"
    unfolding k by linarith+
  have "0 \<le> (of_int v / of_int t :: rat)" "(of_int v / of_int t :: rat) \<le> 1"
    using assms by simp_all
  then have err: "\<bar>?x2 - ?X\<bar> \<le> 300 / 2 ^ 53"
    using percentage_error[of "of_int v / of_int t"] by simp
  have t: "(0::rat) < of_int t" using assms(3) by simp
  have "(of_int t :: rat) \<le> of_int (2 ^ 43)" using assms(4) by (simp only: of_int_le_iff)
  then have t40: "(of_int t :: rat) \<le> 2 ^ 43" by simp
  have gap: "300 / 2 ^ 53 < 1 / (2 * of_int t :: rat)"
  proof -
    have "(300 / 2 ^ 53 :: rat) < 1 / (2 * 2 ^ 43)" by simp
    also have "\<dots> \<le> 1 / (2 * of_int t)"
      using t t40 by (intro divide_left_mono) simp_all
    finally show ?thesis .
  qed
  have upper: "of_int ?k - 1 / 2 \<le> ?X"
  proof (rule ccontr)
    assume "\<not> of_int ?k - 1 / 2 \<le> ?X"
    then have "?X < of_int ?k - 1 / 2" by simp
    then have "100 * of_int v < (of_int ?k - 1 / 2) * (of_int t :: rat)"
      using t by (simp add: pos_divide_less_eq)
    then have "(of_int (200 * v) :: rat) < of_int ((2 * ?k - 1) * t)"
      by (simp add: algebra_simps)
    then have "200 * v < (2 * ?k - 1) * t" by (simp only: of_int_less_iff)
    then have "200 * v + 1 \<le> (2 * ?k - 1) * t" by simp
    then have "(of_int (200 * v + 1) :: rat) \<le> of_int ((2 * ?k - 1) * t)"
      by (simp only: of_int_le_iff)
    then have "200 * of_int v + 1 \<le> (2 * of_int ?k - 1) * (of_int t :: rat)" by simp
    then have "(200 * of_int v + 1) / (2 * of_int t)
               \<le> (2 * of_int ?k - 1) * (of_int t :: rat) / (2 * of_int t)"
      using t by (intro divide_right_mono) simp_all
    moreover have "(2 * of_int ?k - 1) * (of_int t :: rat) / (2 * of_int t) = of_int ?k - 1 / 2"
      using t by (simp add: field_simps)
    moreover have "(200 * of_int v + 1) / (2 * of_int t) = ?X + 1 / (2 * of_int t)"
      using t by (simp add: field_simps)
    ultimately have "?X + 1 / (2 * of_int t) \<le> of_int ?k - 1 / 2" by (simp only:)
    with lo have "1 / (2 * of_int t) \<le> ?x2 - ?X" by linarith
    with gap err show False by linarith
  qed
  have lower: "?X \<le> of_int ?k + 1 / 2"
  proof (rule ccontr)
    assume "\<not> ?X \<le> of_int ?k + 1 / 2"
    then have "of_int ?k + 1 / 2 < ?X" by simp
    then have "(of_int ?k + 1 / 2) * (of_int t :: rat) < 100 * of_int v"
      using t by (simp add: pos_less_divide_eq)
    then have "(of_int ((2 * ?k + 1) * t) :: rat) < of_int (200 * v)"
      by (simp add: algebra_simps)
    then have "(2 * ?k + 1) * t < 200 * v" by (simp only: of_int_less_iff)
    then have "(2 * ?k + 1) * t + 1 \<le> 200 * v" by simp
    then have "(of_int ((2 * ?k + 1) * t + 1) :: rat) \<le> of_int (200 * v)"
      by (simp only: of_int_le_iff)
    then have "(2 * of_int ?k + 1) * (of_int t :: rat) + 1 \<le> 200 * of_int v" by simp
    then have "((2 * of_int ?k + 1) * (of_int t :: rat) + 1) / (2 * of_int t)
               \<le> 200 * of_int v / (2 * of_int t)"
      using t by (intro divide_right_mono) simp_all
    moreover have "((2 * of_int ?k + 1) * (of_int t :: rat) + 1) / (2 * of_int t)
               = of_int ?k + 1 / 2 + 1 / (2 * of_int t)"
      using t by (simp add: field_simps)
    moreover have "200 * of_int v / (2 * of_int t) = ?X" by simp
    ultimately have "of_int ?k + 1 / 2 + 1 / (2 * of_int t) \<le> ?X" by (simp only:)
    with hi have "1 / (2 * of_int t) \<le> ?X - ?x2" by linarith
    with gap err show False by linarith
  qed
  from upper lower show ?thesis unfolding abs_le_iff by linarith
qed

text \<open>Where the double differs from the exact quotient: 29 of 200 votes are 14.5 per
  cent, the handler computes 14.499999999999998 and sends 14; 1 of 8 is 12.5 and is
  sent as 13.\<close>

lemma percentage_ties: "percentage 29 200 = 14 \<and> percentage 1 8 = 13 \<and> percentage 1 3 = 33"
  by code_simp

lemma sum_list_nonneg_member:
  "list_all (\<lambda>x. 0 \<le> x) xs \<Longrightarrow> x \<in> set xs \<Longrightarrow> 0 \<le> x \<and> x \<le> sum_list (xs :: int list)"
proof (induction xs)
  case Nil
  then show ?case by simp
next
  case (Cons a xs)
  have "0 \<le> sum_list xs" using Cons.prems(1) by (auto simp: list_all_iff intro: sum_list_nonneg)
  with Cons show ?case by auto
qed

lemma poll_sound_counts:
  assumes "poll_sound p" and "option \<in> set (options p)"
  shows "0 \<le> voteCount option \<and> voteCount option \<le> totalVotes p"
proof -
  from assms(1) have "list_all (\<lambda>x. 0 \<le> x) (map voteCount (options p))"
    by (simp add: poll_sound_def list_all_iff)
  moreover from assms(2) have "voteCount option \<in> set (map voteCount (options p))" by simp
  ultimately have "0 \<le> voteCount option \<and> voteCount option \<le> sum_list (map voteCount (options p))"
    by (rule sum_list_nonneg_member)
  with assms(1) show ?thesis by (simp add: poll_sound_def poll_ok_def)
qed

lemma add_votes_nonneg:
  "list_all (\<lambda>option. 0 \<le> voteCount option) (options p) \<Longrightarrow>
   list_all (\<lambda>i. 0 \<le> i \<and> i < int (length (options p))) idxs \<Longrightarrow>
   list_all (\<lambda>option. 0 \<le> voteCount option) (options (add_votes u now p idxs))"
proof (induction idxs arbitrary: p)
  case Nil
  then show ?case by simp
next
  case (Cons i idxs)
  let ?p = "p\<lparr>options := (options p)[nat i := push_vote u now (options p ! nat i)],
          totalVotes := totalVotes p + 1\<rparr>"
  from Cons.prems(2) have i: "nat i < length (options p)" by auto
  with Cons.prems(1) have "0 \<le> voteCount (options p ! nat i)" by (simp add: list_all_length)
  then have "0 \<le> voteCount (push_vote u now (options p ! nat i))" by (simp add: push_vote_def)
  with Cons.prems(1) have "list_all (\<lambda>option. 0 \<le> voteCount option) (options ?p)"
    by (auto simp: list_all_iff dest: set_update_subset_insert[THEN subsetD])
  moreover from Cons.prems(2)
  have "list_all (\<lambda>i. 0 \<le> i \<and> i < int (length (options ?p))) idxs" by simp
  ultimately show ?case using Cons.IH[of ?p] by simp
qed

lemma add_votes_total:
  "totalVotes (add_votes u now p idxs) = totalVotes p + int (length idxs)"
  by (induction idxs arbitrary: p) simp_all

lemma add_votes_sound:
  assumes "poll_sound p"
    and "\<not> list_ex (\<lambda>index. index < 0 \<or> index > int (length (options p)) - 1) idxs"
  shows "poll_sound (add_votes u now p idxs)"
proof -
  from assms(2) have "list_all (\<lambda>i. 0 \<le> i \<and> i < int (length (options p))) idxs"
    by (auto simp: list_all_iff list_ex_iff)
  with assms show ?thesis
    by (simp add: poll_sound_def add_votes_ok add_votes_nonneg)
qed

lemma poll_sound_total:
  assumes "poll_sound p"
  shows "0 \<le> totalVotes p"
proof -
  have "0 \<le> sum_list (map voteCount (options p))"
    using assms by (intro sum_list_nonneg) (auto simp: poll_sound_def list_all_iff)
  with assms show ?thesis by (simp add: poll_sound_def poll_ok_def)
qed

text \<open>Soundness of the counters is kept by every step, like \<open>poll_ok\<close>.\<close>

lemma step_poll_sound:
  "list_all poll_sound (polls s) \<Longrightarrow> list_all poll_sound (polls (fst (step s a)))"
proof (cases a)
  case (Http r)
  assume inv: "list_all poll_sound (polls s)"
  have v: "\<And>user now e pid idxs.
      list_all poll_sound (polls (fst (snd (vote_poll s user now e pid idxs))))"
    using inv
    by (auto simp: vote_poll_def reject_def Let_def
        intro!: save_doc_all add_votes_sound dest: findById_all split: option.splits)
  have c: "\<And>user now fresh e q os am ex.
      list_all poll_sound (polls (fst (snd (create_poll s user now fresh e q os am ex))))"
    using inv
    by (auto simp: create_poll_def reject_def Let_def poll_sound_def poll_ok_def comp_def
        list_all_iff split: option.splits)
  show ?thesis using Http inv by (cases r) (simp_all add: keeps v c)
next
  case (Socket k m)
  assume "list_all poll_sound (polls s)"
  then show ?thesis using Socket by (simp add: keeps)
next
  case Tick
  assume "list_all poll_sound (polls s)"
  then show ?thesis using Tick by (simp add: keeps)
qed

lemma run_poll_sound:
  "list_all poll_sound (polls s) \<Longrightarrow> list_all poll_sound (polls (run s acts))"
  by (induction acts arbitrary: s) (simp_all add: step_poll_sound)

lemma vote_poll_payload:
  assumes "(room, poll_vote pid results tv) \<in> set (snd (snd (vote_poll s user now e pollId idxs)))"
  shows "\<exists>p ix. findById p_id pollId (polls s) = Some p \<and> idxs = Some ix \<and> ix \<noteq> []
           \<and> \<not> list_ex (\<lambda>index. index < 0 \<or> index > int (length (options p)) - 1) ix
           \<and> results = pollResults (add_votes user now p ix)
           \<and> tv = totalVotes (add_votes user now p ix)"
  using assms
  by (auto simp: vote_poll_def reject_def Let_def split: option.splits if_splits)

text \<open>
  C9. In the \<^verbatim>\<open>poll_vote\<close> payload that an accepted vote broadcasts, every option's
  percentage is the handler's formula on the option's count \<open>c\<close> and the total \<open>tv\<close>
  of the payload; it is 0 when the total is not positive, so nothing is divided by
  zero; and when \<open>0 \<le> c \<le> tv\<close> with a positive total of at most \<open>2^43\<close> votes it is
  an integer nearest to \<open>c / tv * 100\<close>: it differs from the exact value by at most one
  half, although the quotient and the product are rounded to doubles. In a store whose
  polls have sound counters, which every step keeps, the counts of the payload are in
  that range with a positive total.
\<close>

theorem poll_vote_percentage_nearest:
  assumes "(room, poll_vote pid results tv)
             \<in> set (snd (snd (vote_poll s user now e pollId idxs)))"
    and "(txt, c, pct) \<in> set results"
  shows "pct = percentage c tv
       \<and> (tv \<le> 0 \<longrightarrow> pct = 0)
       \<and> (0 \<le> c \<and> c \<le> tv \<and> 0 < tv \<and> tv \<le> 2 ^ 43 \<longrightarrow>
            \<bar>of_int pct - of_int c / of_int tv * 100\<bar> \<le> (1 / 2 :: rat))
       \<and> (list_all poll_sound (polls s) \<longrightarrow> 0 \<le> c \<and> c \<le> tv \<and> 0 < tv)"
proof -
  from vote_poll_payload [OF assms(1)] obtain p ix where
    f: "findById p_id pollId (polls s) = Some p" and ix: "ix \<noteq> []"
    and r: "\<not> list_ex (\<lambda>index. index < 0 \<or> index > int (length (options p)) - 1) ix"
    and res: "results = pollResults (add_votes user now p ix)"
    and tv: "tv = totalVotes (add_votes user now p ix)" by blast
  let ?p' = "add_votes user now p ix"
  from assms(2) res obtain option where
    o: "option \<in> set (options ?p')" and c: "c = voteCount option"
    and pct: "pct = percentage (voteCount option) (totalVotes ?p')"
    by (auto simp: pollResults_def)
  have 1: "pct = percentage c tv" using pct c tv by simp
  have 2: "tv \<le> 0 \<longrightarrow> pct = 0" using 1 by (simp add: percentage_def)
  have 3: "0 \<le> c \<and> c \<le> tv \<and> 0 < tv \<and> tv \<le> 2 ^ 43 \<longrightarrow>
            \<bar>of_int pct - of_int c / of_int tv * 100\<bar> \<le> (1 / 2 :: rat)"
  proof
    assume "0 \<le> c \<and> c \<le> tv \<and> 0 < tv \<and> tv \<le> 2 ^ 43"
    then have "\<bar>of_int (percentage c tv) - 100 * of_int c / of_int tv\<bar> \<le> (1 / 2 :: rat)"
      by (intro percentage_nearest) simp_all
    then show "\<bar>of_int pct - of_int c / of_int tv * 100\<bar> \<le> (1 / 2 :: rat)"
      using 1 by (simp add: mult.commute)
  qed
  have 4: "list_all poll_sound (polls s) \<longrightarrow> 0 \<le> c \<and> c \<le> tv \<and> 0 < tv"
  proof
    assume inv: "list_all poll_sound (polls s)"
    from inv f have ps: "poll_sound p" by (rule findById_all)
    then have s': "poll_sound ?p'" using r by (rule add_votes_sound)
    from poll_sound_counts [OF s' o] have "0 \<le> c \<and> c \<le> tv" using c tv by simp
    moreover have "1 \<le> int (length ix)" using ix by (cases ix) simp_all
    then have "0 < tv"
      using poll_sound_total [OF ps] unfolding tv add_votes_total by linarith
    ultimately show "0 \<le> c \<and> c \<le> tv \<and> 0 < tv" by simp
  qed
  from 1 2 3 4 show ?thesis by blast
qed

theorem poll_vote_percentage_nearest_witness:
  "snd (snd (vote_poll store_v 2 1002 5 20 (Some [0])))
     = [(5, poll_vote 20 [(''A'', 29, 14), (''B'', 171, 86)] 200)]
   \<and> list_all poll_sound (polls store_v)
   \<and> \<bar>of_int 14 - of_int 29 / of_int 200 * 100\<bar> \<le> (1 / 2 :: rat)
   \<and> \<bar>of_int 86 - of_int 171 / of_int 200 * 100\<bar> \<le> (1 / 2 :: rat)"
proof -
  have out: "snd (snd (vote_poll store_v 2 1002 5 20 (Some [0])))
     = [(5, poll_vote 20 [(''A'', 29, 14), (''B'', 171, 86)] 200)]"
    by code_simp
  have snd: "list_all poll_sound (polls store_v)"
    by (simp add: store_v_def store_p_def store0_def poll0_def poll_sound_def poll_ok_def)
  have a: "(5, poll_vote 20 [(''A'', 29, 14), (''B'', 171, 86)] 200)
             \<in> set (snd (snd (vote_poll store_v 2 1002 5 20 (Some [0]))))"
    by (simp add: out)
  show ?thesis
    using poll_vote_percentage_nearest [OF a, of "''A''" 29 14]
      poll_vote_percentage_nearest [OF a, of "''B''" 171 86] out snd
    by simp
qed

section \<open>Peak attendance is never lowered\<close>

text \<open>The part of C8 that holds: with distinct document ids, no request, socket message
  or tick lowers the \<open>peakAttendance\<close> of a live event.\<close>

lemma peak_kept_refl: "peak_kept xs xs"
  by (auto simp: peak_kept_def list_all_iff list_ex_iff)

lemma peak_kept_save:
  assumes "distinct (map le_id xs)" and "x \<in> set xs" and "le_id d = le_id x"
    and "peakAttendance (metrics x) \<le> peakAttendance (metrics d)"
  shows "peak_kept xs (save_doc le_id d xs)"
proof -
  have "save_doc le_id d xs = map (\<lambda>y. if y = x then d else y) xs"
    using assms(1-3) by (rule save_doc_present)
  then show ?thesis using assms(3,4)
    by (auto simp: peak_kept_def list_all_iff list_ex_iff)
qed

lemma peak_kept_new:
  assumes "\<not> list_ex (\<lambda>le. le_id le = le_id d) xs"
  shows "peak_kept xs (save_doc le_id d xs)"
  using assms by (auto simp: peak_kept_def save_doc_def list_all_iff list_ex_iff)

lemma findLiveEvent_mem: "findLiveEvent s e = Some x \<Longrightarrow> x \<in> set (liveEvents s)"
  by (auto simp: findLiveEvent_def find_Some_iff)

lemma peak_kept_start:
  assumes "distinct (map le_id (liveEvents s))"
    and "\<not> list_ex (\<lambda>le. le_id le = fresh) (liveEvents s)"
  shows "peak_kept (liveEvents s) (liveEvents (fst (snd (start_live s user now fresh e patch))))"
proof (cases "findLiveEvent s e")
  case None
  then show ?thesis using assms(2)
    by (auto simp: start_live_def reject_def Let_def new_LiveEvent_def peak_kept_refl
        intro!: peak_kept_new split: option.splits)
next
  case (Some x)
  then have "x \<in> set (liveEvents s)" by (rule findLiveEvent_mem)
  with Some assms(1) show ?thesis
    by (auto simp: start_live_def reject_def Let_def peak_kept_refl
        intro!: peak_kept_save[where x = x] split: option.splits)
qed

lemma peak_kept_end:
  assumes "distinct (map le_id (liveEvents s))"
  shows "peak_kept (liveEvents s) (liveEvents (fst (snd (end_live s user now e))))"
proof (cases "findLiveEvent s e")
  case None
  then show ?thesis by (simp add: end_live_def reject_def peak_kept_refl)
next
  case (Some x)
  then have "x \<in> set (liveEvents s)" by (rule findLiveEvent_mem)
  with Some assms(1) show ?thesis
    by (auto simp: end_live_def reject_def Let_def updateMetrics_def peak_kept_refl
        intro!: peak_kept_save[where x = x])
qed

lemma peak_kept_socket:
  assumes "distinct (map le_id (liveEvents s))"
  shows "peak_kept (liveEvents s) (liveEvents (fst (snd (handle_socket s k m))))"
proof (cases m)
  case (JoinEvent eventId)
  show ?thesis
  proof (cases eventId)
    case None
    with JoinEvent show ?thesis by (simp add: join_event_def peak_kept_refl)
  next
    case (Some e)
    show ?thesis
    proof (cases "findLiveEvent s e")
      case None
      with Some JoinEvent show ?thesis
        by (simp add: join_event_def findLiveEvent_def Let_def peak_kept_refl)
    next
      case (Some x)
      then have "x \<in> set (liveEvents s)" by (rule findLiveEvent_mem)
      with Some \<open>eventId = Some e\<close> JoinEvent assms show ?thesis
        by (auto simp: join_event_def findLiveEvent_def Let_def peak_kept_refl
            intro!: peak_kept_save[where x = x])
    qed
  qed
next
  case (LeaveEvent eventId)
  show ?thesis
  proof (cases eventId)
    case None
    with LeaveEvent show ?thesis by (simp add: leave_event_def peak_kept_refl)
  next
    case (Some e)
    show ?thesis
    proof (cases "findLiveEvent s e")
      case None
      with Some LeaveEvent show ?thesis
        by (simp add: leave_event_def findLiveEvent_def Let_def peak_kept_refl)
    next
      case (Some x)
      then have "x \<in> set (liveEvents s)" by (rule findLiveEvent_mem)
      with Some \<open>eventId = Some e\<close> LeaveEvent assms show ?thesis
        by (auto simp: leave_event_def findLiveEvent_def Let_def peak_kept_refl
            intro!: peak_kept_save[where x = x])
    qed
  qed
next
  case Disconnect
  show ?thesis
  proof (cases "map_of (socket_eventId s) k")
    case None
    with Disconnect show ?thesis by (simp add: disconnect_def peak_kept_refl)
  next
    case (Some e)
    show ?thesis
    proof (cases "findLiveEvent s e")
      case None
      with Some Disconnect show ?thesis
        by (simp add: disconnect_def findLiveEvent_def Let_def peak_kept_refl)
    next
      case (Some x)
      then have "x \<in> set (liveEvents s)" by (rule findLiveEvent_mem)
      with Some \<open>map_of (socket_eventId s) k = Some e\<close> Disconnect assms show ?thesis
        by (auto simp: disconnect_def findLiveEvent_def Let_def peak_kept_refl
            intro!: peak_kept_save[where x = x])
    qed
  qed
next
  case (TrackEngagement eventId has_action)
  show ?thesis
  proof (cases eventId)
    case None
    with TrackEngagement show ?thesis by (simp add: track_engagement_def peak_kept_refl)
  next
    case (Some e)
    show ?thesis
    proof (cases "findLiveEvent s e")
      case None
      with Some TrackEngagement show ?thesis
        by (simp add: track_engagement_def Let_def peak_kept_refl)
    next
      case (Some x)
      then have "x \<in> set (liveEvents s)" by (rule findLiveEvent_mem)
      with Some \<open>eventId = Some e\<close> TrackEngagement assms show ?thesis
        by (auto simp: track_engagement_def Let_def peak_kept_refl
            intro!: peak_kept_save[where x = x])
    qed
  qed
qed

lemma peak_kept_map:
  assumes "\<And>x. le_id (f x) = le_id x \<and> peakAttendance (metrics x) \<le> peakAttendance (metrics (f x))"
  shows "peak_kept xs (map f xs)"
  unfolding peak_kept_def list_all_iff list_ex_iff
proof
  fix x assume "x \<in> set xs"
  then have "f x \<in> set (map f xs)" by simp
  with assms[of x] show "\<exists>le'\<in>set (map f xs). le_id le' = le_id x
      \<and> peakAttendance (metrics x) \<le> peakAttendance (metrics le')" by blast
qed

lemma peak_kept_tick:
  assumes "distinct (map le_id (liveEvents s))"
  shows "peak_kept (liveEvents s) (liveEvents (fst (tick s)))"
proof -
  let ?les = "filter (\<lambda>le. le_status le = live) (liveEvents s)"
  have "tick_loop s ?les =
     (s\<lparr>liveEvents := map (\<lambda>y. if y \<in> set ?les then reconcile s y else y) (liveEvents s)\<rparr>,
      concat (map (reconcile_notice s) ?les))"
    using assms by (intro tick_loop_char) (simp_all add: distinct_map_filter)
  then have "liveEvents (fst (tick s))
      = map (\<lambda>y. if y \<in> set ?les then reconcile s y else y) (liveEvents s)"
    by (simp add: tick_def)
  moreover have "peak_kept (liveEvents s)
      (map (\<lambda>y. if y \<in> set ?les then reconcile s y else y) (liveEvents s))"
    by (rule peak_kept_map) (simp add: reconcile_def Let_def)
  ultimately show ?thesis by (simp only:)
qed

lemma peak_never_lowered:
  assumes "distinct (map le_id (liveEvents s))" and "fresh_id s a"
  shows "peak_kept (liveEvents s) (liveEvents (fst (step s a)))"
proof (cases a)
  case (Http r)
  show ?thesis
  proof (cases "interaction r")
    case True
    then show ?thesis using Http by (simp add: handle_keeps_liveEvents peak_kept_refl)
  next
    case False
    then show ?thesis using Http assms
      by (cases r) (simp_all add: peak_kept_start peak_kept_end)
  qed
next
  case (Socket k m)
  then show ?thesis using assms(1) by (simp add: peak_kept_socket)
next
  case Tick
  then show ?thesis using assms(1) by (simp add: peak_kept_tick)
qed

end
